theory Spec2Isabelle
  imports Main
begin

section \<open>Python values shared by the two services\<close>

text \<open>
  A Python \<open>str\<close> is a sequence of Unicode code points, so \<open>len\<close> is \<open>length\<close>;
  \<open>bytes\<close> is a sequence of numbers below 256. Both are lists of naturals, told apart
  by their type names only.
\<close>

type_synonym pystr = "nat list"
type_synonym bytes = "nat list"

text \<open>An ASCII literal of the source, written as an Isabelle string.\<close>

definition lit :: "string \<Rightarrow> pystr" where
  "lit s = map of_char s"

text \<open>The exceptions of the interpreter and its library that the modelled code can meet.\<close>

datatype py_exc =
    UnicodeEncodeError
  | UnicodeDecodeError
  | TypeError
  | AttributeError
  | FileExistsError
  | FileNotFoundError
  | NotADirectoryError
  | IsADirectoryError

subsection \<open>\<open>str.encode('utf-8')\<close> and the strict UTF-8 decoder\<close>

definition is_surrogate :: "nat \<Rightarrow> bool" where
  "is_surrogate c = (55296 \<le> c \<and> c \<le> 57343)"

text \<open>
  One code point to its UTF-8 bytes. A lone surrogate has no encoding
  (\<open>UnicodeEncodeError\<close>); nothing above \<open>0x10FFFF\<close> is a code point.
\<close>

definition utf8_char :: "nat \<Rightarrow> bytes option" where
  "utf8_char c =
     (if c < 128 then Some [c]
      else if c < 2048 then Some [192 + c div 64, 128 + c mod 64]
      else if c < 65536 then
        (if is_surrogate c then None
         else Some [224 + c div 4096, 128 + c div 64 mod 64, 128 + c mod 64])
      else if c < 1114112 then
        Some [240 + c div 262144, 128 + c div 4096 mod 64, 128 + c div 64 mod 64, 128 + c mod 64]
      else None)"

fun utf8_encode :: "pystr \<Rightarrow> py_exc + bytes" where
  "utf8_encode [] = Inr []"
| "utf8_encode (c # cs) =
     (case utf8_char c of
        None \<Rightarrow> Inl UnicodeEncodeError
      | Some bs \<Rightarrow> (case utf8_encode cs of Inl e \<Rightarrow> Inl e | Inr rest \<Rightarrow> Inr (bs @ rest)))"

definition encodable :: "pystr \<Rightarrow> bool" where
  "encodable s = (\<forall>c \<in> set s. utf8_char c \<noteq> None)"

definition is_cont :: "nat \<Rightarrow> bool" where
  "is_cont b = (128 \<le> b \<and> b < 192)"

text \<open>
  The strict decoder: shortest form only, no surrogates, nothing above \<open>0x10FFFF\<close>;
  any other byte sequence is a \<open>UnicodeDecodeError\<close>.
\<close>

fun utf8_decode :: "bytes \<Rightarrow> py_exc + pystr" where
  "utf8_decode [] = Inr []"
| "utf8_decode (b0 # bs) =
     (if b0 < 128 then
        (case utf8_decode bs of Inl e \<Rightarrow> Inl e | Inr cs \<Rightarrow> Inr (b0 # cs))
      else if 194 \<le> b0 \<and> b0 < 224 then
        (case bs of
           b1 # r \<Rightarrow>
             if is_cont b1 then
               (case utf8_decode r of Inl e \<Rightarrow> Inl e
                | Inr cs \<Rightarrow> Inr (((b0 - 192) * 64 + (b1 - 128)) # cs))
             else Inl UnicodeDecodeError
         | _ \<Rightarrow> Inl UnicodeDecodeError)
      else if 224 \<le> b0 \<and> b0 < 240 then
        (case bs of
           b1 # b2 # r \<Rightarrow>
             (let c = (b0 - 224) * 4096 + (b1 - 128) * 64 + (b2 - 128) in
              if is_cont b1 \<and> is_cont b2 \<and> 2048 \<le> c \<and> \<not> is_surrogate c then
                (case utf8_decode r of Inl e \<Rightarrow> Inl e | Inr cs \<Rightarrow> Inr (c # cs))
              else Inl UnicodeDecodeError)
         | _ \<Rightarrow> Inl UnicodeDecodeError)
      else if 240 \<le> b0 \<and> b0 < 245 then
        (case bs of
           b1 # b2 # b3 # r \<Rightarrow>
             (let c = (b0 - 240) * 262144 + (b1 - 128) * 4096 + (b2 - 128) * 64 + (b3 - 128) in
              if is_cont b1 \<and> is_cont b2 \<and> is_cont b3 \<and> 65536 \<le> c \<and> c < 1114112 then
                (case utf8_decode r of Inl e \<Rightarrow> Inl e | Inr cs \<Rightarrow> Inr (c # cs))
              else Inl UnicodeDecodeError)
         | _ \<Rightarrow> Inl UnicodeDecodeError)
      else Inl UnicodeDecodeError)"

section \<open>AuthService (app/services/auth.py)\<close>

record auth_service =
  allowed_user_ids :: "int list"
  shared_secret :: pystr
  telegram_token :: pystr

datatype auth_error =
    Missing_webhook_secret_token
  | Invalid_webhook_signature
  | User_not_authorized int

subsection \<open>\<open>hexdigest\<close> and \<open>hmac.compare_digest\<close>\<close>

definition hexdigit :: "nat \<Rightarrow> nat" where
  "hexdigit d = (if d < 10 then 48 + d else 87 + d)"

definition hexlify :: "bytes \<Rightarrow> pystr" where
  "hexlify bs = concat (map (\<lambda>b. [hexdigit (b div 16 mod 16), hexdigit (b mod 16)]) bs)"

definition is_ascii :: "pystr \<Rightarrow> bool" where
  "is_ascii s = (\<forall>c \<in> set s. c < 128)"

text \<open>
  \<open>hmac.compare_digest\<close> on two \<open>str\<close> arguments raises \<open>TypeError\<close> unless both
  are ASCII; otherwise it is equality (its running time is not modelled).
\<close>

definition compare_digest :: "pystr \<Rightarrow> pystr \<Rightarrow> py_exc + bool" where
  "compare_digest a b = (if is_ascii a \<and> is_ascii b then Inr (a = b) else Inl TypeError)"

subsection \<open>The three methods\<close>

text \<open>
  The keyed hash itself, \<open>hmac.new(key, msg, hashlib.sha256).digest()\<close>, belongs to the
  interpreter's library; it is the parameter \<open>mac\<close>, a function from key bytes and
  message bytes to digest bytes.

  \<open>expected_signature\<close> is the \<open>try\<close> block up to the comparison; every exception of
  the block is caught by \<open>except Exception\<close> and turned into \<open>False\<close>.
\<close>

definition expected_signature ::
  "(bytes \<Rightarrow> bytes \<Rightarrow> bytes) \<Rightarrow> auth_service \<Rightarrow> pystr \<Rightarrow> py_exc + pystr" where
  "expected_signature mac svc update_data =
     (case utf8_encode (shared_secret svc) of
        Inl e \<Rightarrow> Inl e
      | Inr key \<Rightarrow>
          (case utf8_encode update_data of
             Inl e \<Rightarrow> Inl e
           | Inr msg \<Rightarrow> Inr (hexlify (mac key msg))))"

definition verify_telegram_webhook ::
  "(bytes \<Rightarrow> bytes \<Rightarrow> bytes) \<Rightarrow> auth_service \<Rightarrow> pystr \<Rightarrow> pystr \<Rightarrow> bool" where
  "verify_telegram_webhook mac svc token update_data =
     (case expected_signature mac svc update_data of
        Inl e \<Rightarrow> False
      | Inr expected \<Rightarrow>
          (case compare_digest expected token of
             Inl e \<Rightarrow> False
           | Inr b \<Rightarrow> b))"

definition is_user_authorized :: "auth_service \<Rightarrow> int \<Rightarrow> bool" where
  "is_user_authorized svc user_id = (user_id \<in> set (allowed_user_ids svc))"

text \<open>
  \<open>if not token\<close> holds for \<open>None\<close> and for the empty string. The result is either
  the raised \<open>AuthenticationError\<close> or the returned \<open>True\<close>.
\<close>

definition authenticate_request ::
  "(bytes \<Rightarrow> bytes \<Rightarrow> bytes) \<Rightarrow> auth_service \<Rightarrow> pystr option \<Rightarrow> pystr \<Rightarrow> int
     \<Rightarrow> auth_error + bool" where
  "authenticate_request mac svc token update_data user_id =
     (case token of
        None \<Rightarrow> Inl Missing_webhook_secret_token
      | Some t \<Rightarrow>
          if t = [] then Inl Missing_webhook_secret_token
          else if \<not> verify_telegram_webhook mac svc t update_data then
            Inl Invalid_webhook_signature
          else if \<not> is_user_authorized svc user_id then Inl (User_not_authorized user_id)
          else Inr True)"

section \<open>The interpreter's library used by TranscriptStorage\<close>

subsection \<open>Text files: universal newlines, line iteration, \<open>str.strip\<close>\<close>

text \<open>
  A file opened in text mode with the default \<open>newline=None\<close> hands out
  \<open>\r\n\<close> and a lone \<open>\r\<close> as \<open>\n\<close>.
\<close>

fun universal_newlines :: "pystr \<Rightarrow> pystr" where
  "universal_newlines [] = []"
| "universal_newlines [c] = [if c = 13 then 10 else c]"
| "universal_newlines (c # d # cs) =
     (if c = 13 \<and> d = 10 then 10 # universal_newlines cs
      else if c = 13 then 10 # universal_newlines (d # cs)
      else c # universal_newlines (d # cs))"

text \<open>
  Iterating over a file yields its lines, each with its terminating \<open>\n\<close>, and
  a last line without one when the file does not end in \<open>\n\<close>. The same
  iteration over a binary file splits after each byte 10.
\<close>

fun file_lines :: "nat list \<Rightarrow> nat list list" where
  "file_lines [] = []"
| "file_lines (c # cs) =
     (if c = 10 then [c] # file_lines cs
      else (case file_lines cs of [] \<Rightarrow> [[c]] | l # ls \<Rightarrow> (c # l) # ls))"

text \<open>The code points for which \<open>str.isspace\<close> holds; \<open>strip()\<close> removes them at both ends.\<close>

definition is_space :: "nat \<Rightarrow> bool" where
  "is_space c =
     ((9 \<le> c \<and> c \<le> 13) \<or> (28 \<le> c \<and> c \<le> 32) \<or> c = 133 \<or> c = 160 \<or> c = 5760
      \<or> (8192 \<le> c \<and> c \<le> 8202) \<or> c = 8232 \<or> c = 8233 \<or> c = 8239 \<or> c = 8287
      \<or> c = 12288)"

definition strip :: "pystr \<Rightarrow> pystr" where
  "strip s = rev (dropWhile is_space (rev (dropWhile is_space s)))"

subsection \<open>JSON values\<close>

text \<open>
  What \<open>json.loads\<close> returns: \<open>None\<close>, a \<open>bool\<close>, an \<open>int\<close>, a \<open>float\<close>,
  a \<open>str\<close>, a \<open>list\<close> or a \<open>dict\<close>. A \<open>dict\<close> keeps its keys in insertion
  order and holds each key once. A \<open>float\<close> is kept as the literal it was read from:
  the binary value it rounds to is not computed here, and what depends on it (equality
  with an \<open>int\<close>, equality of two floats, \<open>repr\<close>) is the parameter \<open>floats\<close>.
\<close>

datatype json =
    JNull
  | JBool bool
  | JInt int
  | JFloat pystr
  | JStr pystr
  | JArr "json list"
  | JObj "(pystr \<times> json) list"

record floats =
  float_eq_int :: "pystr \<Rightarrow> int \<Rightarrow> bool"
  float_eq :: "pystr \<Rightarrow> pystr \<Rightarrow> bool"
  float_repr :: "pystr \<Rightarrow> pystr"

fun dict_set :: "(pystr \<times> json) list \<Rightarrow> pystr \<Rightarrow> json \<Rightarrow> (pystr \<times> json) list" where
  "dict_set [] k v = [(k, v)]"
| "dict_set (p # ps) k v = (if fst p = k then (k, v) # ps else p # dict_set ps k v)"

text \<open>\<open>record.get(key)\<close>: only a \<open>dict\<close> has the method.\<close>

definition dict_get :: "json \<Rightarrow> pystr \<Rightarrow> py_exc + json" where
  "dict_get record k =
     (case record of
        JObj kvs \<Rightarrow> (case map_of kvs k of None \<Rightarrow> Inr JNull | Some v \<Rightarrow> Inr v)
      | _ \<Rightarrow> Inl AttributeError)"

definition as_int :: "json \<Rightarrow> int option" where
  "as_int v = (case v of JInt i \<Rightarrow> Some i | JBool b \<Rightarrow> Some (if b then 1 else 0) | _ \<Rightarrow> None)"

text \<open>\<open>v == n\<close> for an \<open>int\<close> \<open>n\<close>: numbers compare by value, \<open>True\<close> is 1.\<close>

definition py_eq_int :: "floats \<Rightarrow> json \<Rightarrow> int \<Rightarrow> bool" where
  "py_eq_int F v n =
     (case v of
        JFloat x \<Rightarrow> float_eq_int F x n
      | _ \<Rightarrow> (case as_int v of Some i \<Rightarrow> i = n | None \<Rightarrow> False))"

text \<open>\<open>a == b\<close> for two hashable values.\<close>

definition py_eq :: "floats \<Rightarrow> json \<Rightarrow> json \<Rightarrow> bool" where
  "py_eq F a b =
     (case a of
        JNull \<Rightarrow> b = JNull
      | JStr s \<Rightarrow> b = JStr s
      | JFloat x \<Rightarrow>
          (case b of
             JFloat y \<Rightarrow> float_eq F x y
           | _ \<Rightarrow> (case as_int b of Some n \<Rightarrow> float_eq_int F x n | None \<Rightarrow> False))
      | _ \<Rightarrow> (case as_int a of Some m \<Rightarrow> py_eq_int F b m | None \<Rightarrow> False))"

definition hashable :: "json \<Rightarrow> bool" where
  "hashable v = (case v of JArr _ \<Rightarrow> False | JObj _ \<Rightarrow> False | _ \<Rightarrow> True)"

text \<open>
  \<open>set.add\<close>: the elements of the set in the order they were first added. Every value
  comes fresh from the parser, so no two are the same object and membership is \<open>==\<close>.
\<close>

definition set_add :: "floats \<Rightarrow> json list \<Rightarrow> json \<Rightarrow> py_exc + json list" where
  "set_add F S v =
     (if \<not> hashable v then Inl TypeError
      else if list_ex (\<lambda>e. py_eq F e v) S then Inr S
      else Inr (S @ [v]))"

subsection \<open>\<open>json.loads\<close>\<close>

text \<open>
  The decoder follows the scanner of the interpreter's \<open>json\<close> module (\<open>scan_once\<close>,
  \<open>scanstring\<close> in strict mode, the number matcher, the object and array loops). Each
  function takes the text that is left and returns the value with the text after it;
  \<open>None\<close> is \<open>JSONDecodeError\<close>. Two limits of the interpreter are not modelled: the
  recursion limit on nesting depth, and the limit on the number of digits of an integer.
\<close>

definition is_ws :: "nat \<Rightarrow> bool" where
  "is_ws c = (c = 32 \<or> c = 9 \<or> c = 10 \<or> c = 13)"

definition skip_ws :: "pystr \<Rightarrow> pystr" where
  "skip_ws s = dropWhile is_ws s"

definition is_digit :: "nat \<Rightarrow> bool" where
  "is_digit c = (48 \<le> c \<and> c \<le> 57)"

definition hexval :: "nat \<Rightarrow> nat option" where
  "hexval c =
     (if 48 \<le> c \<and> c \<le> 57 then Some (c - 48)
      else if 97 \<le> c \<and> c \<le> 102 then Some (c - 87)
      else if 65 \<le> c \<and> c \<le> 70 then Some (c - 55)
      else None)"

definition hex4 :: "nat \<Rightarrow> nat \<Rightarrow> nat \<Rightarrow> nat \<Rightarrow> nat option" where
  "hex4 a b c d =
     (case (hexval a, hexval b, hexval c, hexval d) of
        (Some x, Some y, Some z, Some w) \<Rightarrow> Some (((x * 16 + y) * 16 + z) * 16 + w)
      | _ \<Rightarrow> None)"

text \<open>The one-letter escapes: quote, backslash, slash, and \<open>b f n r t\<close>.\<close>

definition unescape :: "nat \<Rightarrow> nat option" where
  "unescape e =
     (if e = 34 then Some 34 else if e = 92 then Some 92 else if e = 47 then Some 47
      else if e = 98 then Some 8 else if e = 102 then Some 12 else if e = 110 then Some 10
      else if e = 114 then Some 13 else if e = 116 then Some 9 else None)"

definition push :: "nat \<Rightarrow> (pystr \<times> pystr) option \<Rightarrow> (pystr \<times> pystr) option" where
  "push c r = (case r of None \<Rightarrow> None | Some (s, rest) \<Rightarrow> Some (c # s, rest))"

text \<open>
  \<open>scanstring\<close> starts after the opening quote. A control character in the string is
  an error (strict mode); \<open>\uXXXX\<close> takes four hexadecimal digits, and a high
  surrogate followed by an escaped low surrogate is one code point.
\<close>

fun scanstring :: "pystr \<Rightarrow> (pystr \<times> pystr) option" where
  "scanstring [] = None"
| "scanstring (c # cs) =
     (if c = 34 then Some ([], cs)
      else if c = 92 then
        (case cs of
           [] \<Rightarrow> None
         | e # r \<Rightarrow>
             if e = 117 then
               (case r of
                  h1 # h2 # h3 # h4 # r' \<Rightarrow>
                    (case hex4 h1 h2 h3 h4 of
                       None \<Rightarrow> None
                     | Some u \<Rightarrow>
                         if 55296 \<le> u \<and> u \<le> 56319 then
                           (case r' of
                              b # v # g1 # g2 # g3 # g4 # r'' \<Rightarrow>
                                if b = 92 \<and> v = 117 then
                                  (case hex4 g1 g2 g3 g4 of
                                     None \<Rightarrow> None
                                   | Some u2 \<Rightarrow>
                                       if 56320 \<le> u2 \<and> u2 \<le> 57343 then
                                         push (65536 + (u - 55296) * 1024 + (u2 - 56320))
                                           (scanstring r'')
                                       else push u (scanstring r'))
                                else push u (scanstring r')
                            | _ \<Rightarrow> push u (scanstring r'))
                         else push u (scanstring r'))
                | _ \<Rightarrow> None)
             else (case unescape e of None \<Rightarrow> None | Some ch \<Rightarrow> push ch (scanstring r)))
      else if c < 32 then None
      else push c (scanstring cs))"

definition dec :: "pystr \<Rightarrow> nat" where
  "dec ds = foldl (\<lambda>a d. 10 * a + (d - 48)) 0 ds"

text \<open>
  The number matcher: an optional minus, then \<open>0\<close> or a digit from 1 to 9 with any
  digits after it; a fraction is a dot with at least one digit; an exponent is \<open>e\<close> or
  \<open>E\<close>, an optional sign and at least one digit. With neither fraction nor exponent the
  number is an \<open>int\<close>.
\<close>

definition int_part :: "pystr \<Rightarrow> (pystr \<times> pystr) option" where
  "int_part s =
     (case s of
        [] \<Rightarrow> None
      | c # cs \<Rightarrow>
          if c = 48 then Some ([c], cs)
          else if 49 \<le> c \<and> c \<le> 57 then Some (c # takeWhile is_digit cs, dropWhile is_digit cs)
          else None)"

definition frac_part :: "pystr \<Rightarrow> pystr \<times> pystr" where
  "frac_part s =
     (case s of
        p # d # r \<Rightarrow>
          if p = 46 \<and> is_digit d then (p # d # takeWhile is_digit r, dropWhile is_digit r)
          else ([], s)
      | _ \<Rightarrow> ([], s))"

definition exp_part :: "pystr \<Rightarrow> pystr \<times> pystr" where
  "exp_part s =
     (case s of
        [] \<Rightarrow> ([], s)
      | e # r \<Rightarrow>
          if e = 101 \<or> e = 69 then
            (let (sg, r1) =
               (case r of
                  [] \<Rightarrow> ([], r)
                | c # r' \<Rightarrow> if c = 43 \<or> c = 45 then ([c], r') else ([], r))
             in if takeWhile is_digit r1 = [] then ([], s)
                else (e # sg @ takeWhile is_digit r1, dropWhile is_digit r1))
          else ([], s))"

definition match_number :: "pystr \<Rightarrow> (json \<times> pystr) option" where
  "match_number s =
     (let (sign, s1) =
        (case s of [] \<Rightarrow> ([], s) | c # cs \<Rightarrow> if c = 45 then ([c], cs) else ([], s))
      in case int_part s1 of
           None \<Rightarrow> None
         | Some (ds, s2) \<Rightarrow>
             (let (fr, s3) = frac_part s2; (ex, s4) = exp_part s3
              in if fr = [] \<and> ex = [] then
                   Some (JInt (if sign = [] then int (dec ds) else - int (dec ds)), s4)
                 else Some (JFloat (sign @ ds @ fr @ ex), s4)))"

definition starts_with :: "pystr \<Rightarrow> pystr \<Rightarrow> bool" where
  "starts_with p s = (take (length p) s = p)"

text \<open>
  \<open>scan_once\<close> reads one value; \<open>parse_members\<close> is the loop of the object decoder
  from a key on, \<open>parse_elems\<close> the loop of the array decoder from an element on. A
  key met again replaces the value at its first place. The comparisons of lengths
  are always true of what a sub-decoder leaves; they are the reason the recursion ends.
\<close>

function scan_once :: "pystr \<Rightarrow> (json \<times> pystr) option"
  and parse_members :: "pystr \<Rightarrow> (pystr \<times> json) list \<Rightarrow> (json \<times> pystr) option"
  and parse_elems :: "pystr \<Rightarrow> json list \<Rightarrow> (json \<times> pystr) option" where
  "scan_once s =
     (case s of
        [] \<Rightarrow> None
      | c # cs \<Rightarrow>
          if c = 34 then
            (case scanstring cs of None \<Rightarrow> None | Some (str, rest) \<Rightarrow> Some (JStr str, rest))
          else if c = 123 then
            (case skip_ws cs of
               [] \<Rightarrow> None
             | d # r \<Rightarrow> if d = 125 then Some (JObj [], r) else parse_members (skip_ws cs) [])
          else if c = 91 then
            (case skip_ws cs of
               [] \<Rightarrow> None
             | d # r \<Rightarrow> if d = 93 then Some (JArr [], r) else parse_elems (skip_ws cs) [])
          else if starts_with (lit ''null'') s then Some (JNull, drop 4 s)
          else if starts_with (lit ''true'') s then Some (JBool True, drop 4 s)
          else if starts_with (lit ''false'') s then Some (JBool False, drop 5 s)
          else if starts_with (lit ''NaN'') s then Some (JFloat (lit ''NaN''), drop 3 s)
          else if starts_with (lit ''Infinity'') s then Some (JFloat (lit ''Infinity''), drop 8 s)
          else if starts_with (lit ''-Infinity'') s then
            Some (JFloat (lit ''-Infinity''), drop 9 s)
          else match_number s)"
| "parse_members s acc =
     (case s of
        [] \<Rightarrow> None
      | q # cs \<Rightarrow>
          if q \<noteq> 34 then None
          else
            (case scanstring cs of
               None \<Rightarrow> None
             | Some (key, r1) \<Rightarrow>
                 (case skip_ws r1 of
                    [] \<Rightarrow> None
                  | colon # r2 \<Rightarrow>
                      if colon \<noteq> 58 \<or> \<not> length (skip_ws r2) < length s then None
                      else
                        (case scan_once (skip_ws r2) of
                           None \<Rightarrow> None
                         | Some (v, r3) \<Rightarrow>
                             (case skip_ws r3 of
                                [] \<Rightarrow> None
                              | d # r4 \<Rightarrow>
                                  if d = 125 then Some (JObj (dict_set acc key v), r4)
                                  else if d = 44 \<and> length (skip_ws r4) < length s then
                                    parse_members (skip_ws r4) (dict_set acc key v)
                                  else None)))))"
| "parse_elems s acc =
     (case scan_once s of
        None \<Rightarrow> None
      | Some (v, r1) \<Rightarrow>
          (case skip_ws r1 of
             [] \<Rightarrow> None
           | d # r2 \<Rightarrow>
               if d = 93 then Some (JArr (acc @ [v]), r2)
               else if d = 44 \<and> length (skip_ws r2) < length s then
                 parse_elems (skip_ws r2) (acc @ [v])
               else None))"
  by pat_completeness auto
termination
  apply (relation "measure (\<lambda>x. case x of
          Inl s \<Rightarrow> 2 * length s
        | Inr (Inl (s, acc)) \<Rightarrow> 2 * length s + 1
        | Inr (Inr (s, acc)) \<Rightarrow> 2 * length s + 1)")
  apply (auto simp: skip_ws_def)
  subgoal for cs d r using length_dropWhile_le [of is_ws cs] by simp
  subgoal for cs d r using length_dropWhile_le [of is_ws cs] by simp
  done

text \<open>
  \<open>json.loads\<close> on a \<open>str\<close>: a leading byte order mark is refused, white space may
  stand on both sides of the value, and nothing else may follow it.
\<close>

definition loads :: "pystr \<Rightarrow> json option" where
  "loads s =
     (if starts_with [65279] s then None
      else case scan_once (skip_ws s) of
             None \<Rightarrow> None
           | Some (v, rest) \<Rightarrow> if skip_ws rest = [] then Some v else None)"

subsection \<open>\<open>json.dumps(..., ensure_ascii=False)\<close>\<close>

text \<open>
  A string is written between quotes, with the quote, the backslash and the control
  characters escaped; every other code point is written as it is. An \<open>int\<close> is
  written in decimal, however long (the interpreter's limit on the digits of an integer
  is not modelled here either).
\<close>

definition escape_char :: "nat \<Rightarrow> pystr" where
  "escape_char c =
     (if c = 34 then [92, 34] else if c = 92 then [92, 92] else if c = 10 then [92, 110]
      else if c = 13 then [92, 114] else if c = 9 then [92, 116] else if c = 8 then [92, 98]
      else if c = 12 then [92, 102]
      else if c < 32 then [92, 117, 48, 48, hexdigit (c div 16), hexdigit (c mod 16)]
      else [c])"

definition encode_basestring :: "pystr \<Rightarrow> pystr" where
  "encode_basestring s = 34 # concat (map escape_char s) @ [34]"

function str_nat :: "nat \<Rightarrow> pystr" where
  "str_nat n = (if n < 10 then [48 + n] else str_nat (n div 10) @ [48 + n mod 10])"
  by pat_completeness auto
termination
  by (relation "measure id") auto

definition str_int :: "int \<Rightarrow> pystr" where
  "str_int i = (if i < 0 then 45 # str_nat (nat (- i)) else str_nat (nat i))"

fun join :: "pystr \<Rightarrow> pystr list \<Rightarrow> pystr" where
  "join sep [] = []"
| "join sep [x] = x"
| "join sep (x # y # ys) = x @ sep @ join sep (y # ys)"

fun dumps :: "floats \<Rightarrow> json \<Rightarrow> pystr" where
  "dumps F JNull = lit ''null''"
| "dumps F (JBool b) = (if b then lit ''true'' else lit ''false'')"
| "dumps F (JInt i) = str_int i"
| "dumps F (JFloat x) = float_repr F x"
| "dumps F (JStr s) = encode_basestring s"
| "dumps F (JArr vs) = 91 # join (lit '', '') (map (dumps F) vs) @ [93]"
| "dumps F (JObj kvs) =
     123 # join (lit '', '')
             (map (\<lambda>kv. encode_basestring (fst kv) @ lit '': '' @ dumps F (snd kv)) kvs) @ [125]"

subsection \<open>\<open>datetime.utcnow().isoformat()\<close>\<close>

record datetime =
  year :: nat
  month :: nat
  day :: nat
  hour :: nat
  minute :: nat
  second :: nat
  microsecond :: nat

definition zpad :: "nat \<Rightarrow> nat \<Rightarrow> pystr" where
  "zpad w n = replicate (w - length (str_nat n)) 48 @ str_nat n"

text \<open>\<open>YYYY-MM-DDTHH:MM:SS\<close>, followed by \<open>.ffffff\<close> unless the microsecond is 0.\<close>

definition isoformat :: "datetime \<Rightarrow> pystr" where
  "isoformat t =
     zpad 4 (year t) @ [45] @ zpad 2 (month t) @ [45] @ zpad 2 (day t) @ [84]
     @ zpad 2 (hour t) @ [58] @ zpad 2 (minute t) @ [58] @ zpad 2 (second t)
     @ (if microsecond t = 0 then [] else 46 # zpad 6 (microsecond t))"

subsection \<open>The file system\<close>

text \<open>
  A path is the list of its components from the root, resolved and absolute; the root
  is the empty list and is always a directory. A node is a regular file with its
  bytes, or a directory. Permissions, devices and links are not modelled: an operation
  fails here only by what the nodes are. The platform's line separator is \<open>\n\<close>.
\<close>

type_synonym path = "string list"

datatype node = File bytes | Dir

type_synonym filesystem = "path \<Rightarrow> node option"

definition lookup :: "filesystem \<Rightarrow> path \<Rightarrow> node option" where
  "lookup fs p = (if p = [] then Some Dir else fs p)"

definition parent :: "path \<Rightarrow> path" where
  "parent p = butlast p"

definition path_exists :: "filesystem \<Rightarrow> path \<Rightarrow> bool" where
  "path_exists fs p = (lookup fs p \<noteq> None)"

definition is_dir :: "filesystem \<Rightarrow> path \<Rightarrow> bool" where
  "is_dir fs p = (lookup fs p = Some Dir)"

definition os_mkdir :: "filesystem \<Rightarrow> path \<Rightarrow> py_exc + filesystem" where
  "os_mkdir fs d =
     (if lookup fs d \<noteq> None then
        (case lookup fs (parent d) of
           Some (File _) \<Rightarrow> Inl NotADirectoryError
         | _ \<Rightarrow> Inl FileExistsError)
      else
        (case lookup fs (parent d) of
           None \<Rightarrow> Inl FileNotFoundError
         | Some (File _) \<Rightarrow> Inl NotADirectoryError
         | Some Dir \<Rightarrow> Inr (fs(d \<mapsto> Dir))))"

text \<open>
  \<open>Path.mkdir(parents=True, exist_ok=True)\<close>: try \<open>os.mkdir\<close>; when the parent is
  missing, make the parent the same way and try once more; any other failure is
  passed on unless the path is a directory already.
\<close>

function mkdir_parents :: "filesystem \<Rightarrow> path \<Rightarrow> py_exc + filesystem" where
  "mkdir_parents fs d =
     (case os_mkdir fs d of
        Inr fs' \<Rightarrow> Inr fs'
      | Inl e \<Rightarrow>
          if e = FileNotFoundError then
            (if d = [] then Inl e
             else
               (case mkdir_parents fs (parent d) of
                  Inl e' \<Rightarrow> Inl e'
                | Inr fs1 \<Rightarrow>
                    (case os_mkdir fs1 d of
                       Inr fs2 \<Rightarrow> Inr fs2
                     | Inl e2 \<Rightarrow>
                         if e2 \<noteq> FileNotFoundError \<and> is_dir fs1 d then Inr fs1 else Inl e2)))
          else if is_dir fs d then Inr fs
          else Inl e)"
  by pat_completeness auto
termination
  by (relation "measure (\<lambda>(fs, d). length d)") (auto simp: parent_def)

text \<open>
  Opening a file: mode \<open>a\<close> and mode \<open>w\<close> create a missing file, mode \<open>w\<close> empties
  an existing one at once, mode \<open>r\<close> needs the file. Reading and writing go to the
  node the path names at the moment of the read or write.
\<close>

definition open_check :: "filesystem \<Rightarrow> path \<Rightarrow> py_exc option" where
  "open_check fs p =
     (case lookup fs (parent p) of
        None \<Rightarrow> Some FileNotFoundError
      | Some (File _) \<Rightarrow> Some NotADirectoryError
      | Some Dir \<Rightarrow> (if lookup fs p = Some Dir then Some IsADirectoryError else None))"

definition open_append :: "filesystem \<Rightarrow> path \<Rightarrow> py_exc + filesystem" where
  "open_append fs p =
     (case open_check fs p of
        Some e \<Rightarrow> Inl e
      | None \<Rightarrow> (case lookup fs p of None \<Rightarrow> Inr (fs(p \<mapsto> File [])) | _ \<Rightarrow> Inr fs))"

definition open_write :: "filesystem \<Rightarrow> path \<Rightarrow> py_exc + filesystem" where
  "open_write fs p =
     (case open_check fs p of
        Some e \<Rightarrow> Inl e
      | None \<Rightarrow> Inr (fs(p \<mapsto> File [])))"

definition open_read :: "filesystem \<Rightarrow> path \<Rightarrow> py_exc option" where
  "open_read fs p =
     (case lookup fs p of
        None \<Rightarrow> Some FileNotFoundError
      | Some Dir \<Rightarrow> Some IsADirectoryError
      | Some (File _) \<Rightarrow> None)"

definition contents :: "filesystem \<Rightarrow> path \<Rightarrow> bytes" where
  "contents fs p = (case lookup fs p of Some (File bs) \<Rightarrow> bs | _ \<Rightarrow> [])"

definition write_bytes :: "filesystem \<Rightarrow> path \<Rightarrow> bytes \<Rightarrow> filesystem" where
  "write_bytes fs p bs = fs(p \<mapsto> File (contents fs p @ bs))"

text \<open>
  The text read from a file opened with \<open>mode='r', encoding='utf-8'\<close>. The model
  decodes the whole file before the first line is handed out; the interpreter decodes
  block by block, so on a file that is not valid UTF-8 a loop that leaves early may
  end before the bad block is met. What is proved below about a file that does not
  decode is about loops that read to the end.
\<close>

definition read_text :: "filesystem \<Rightarrow> path \<Rightarrow> py_exc + pystr" where
  "read_text fs p =
     (case open_read fs p of
        Some e \<Rightarrow> Inl e
      | None \<Rightarrow>
          (case utf8_decode (contents fs p) of
             Inl e \<Rightarrow> Inl e
           | Inr s \<Rightarrow> Inr (universal_newlines s)))"

section \<open>TranscriptStorage (app/storage/transcripts.py)\<close>

text \<open>
  The object holds \<open>file_path\<close> and a lock. Each method is modelled as it runs alone:
  it takes the file system and, when it writes, returns the new one. An exception
  that reaches the outer \<open>except Exception\<close> becomes \<open>StorageError\<close> with its cause.
\<close>

datatype storage_error = StorageError py_exc

subsection \<open>\<open>save_transcription\<close>\<close>

definition transcript_record ::
  "datetime \<Rightarrow> int \<Rightarrow> int \<Rightarrow> pystr \<Rightarrow> pystr \<Rightarrow> pystr \<Rightarrow> pystr option \<Rightarrow> json" where
  "transcript_record now user_id message_id file_id transcription file_type filename =
     JObj [(lit ''timestamp'', JStr (isoformat now @ lit ''Z'')),
           (lit ''user_id'', JInt user_id),
           (lit ''message_id'', JInt message_id),
           (lit ''file_id'', JStr file_id),
           (lit ''file_type'', JStr file_type),
           (lit ''filename'', (case filename of None \<Rightarrow> JNull | Some n \<Rightarrow> JStr n)),
           (lit ''transcription'', JStr transcription),
           (lit ''character_count'', JInt (int (length transcription)))]"

text \<open>
  The result is what the call returns or raises, and the file system it leaves. The
  file is opened before the line is encoded, so a line that cannot be encoded leaves
  a file that was missing created and empty.
\<close>

definition save_transcription ::
  "floats \<Rightarrow> datetime \<Rightarrow> filesystem \<Rightarrow> path \<Rightarrow> int \<Rightarrow> int \<Rightarrow> pystr \<Rightarrow> pystr \<Rightarrow> pystr
     \<Rightarrow> pystr option \<Rightarrow> (storage_error + bool) \<times> filesystem" where
  "save_transcription F now fs file_path user_id message_id file_id transcription file_type
       filename =
     (let record = transcript_record now user_id message_id file_id transcription file_type
                     filename
      in case mkdir_parents fs (parent file_path) of
           Inl e \<Rightarrow> (Inl (StorageError e), fs)
         | Inr fs1 \<Rightarrow>
             (case open_append fs1 file_path of
                Inl e \<Rightarrow> (Inl (StorageError e), fs1)
              | Inr fs2 \<Rightarrow>
                  (case utf8_encode (dumps F record @ [10]) of
                     Inl e \<Rightarrow> (Inl (StorageError e), fs2)
                   | Inr bs \<Rightarrow> (Inr True, write_bytes fs2 file_path bs))))"

subsection \<open>\<open>get_transcriptions\<close>\<close>

text \<open>
  The body of the loop over the lines, with \<open>transcriptions\<close> as it grows. A line that
  does not decode as JSON is passed over; \<open>record.get\<close> is evaluated only when a
  \<open>user_id\<close> is given; \<open>if limit and ...\<close> holds for a limit that is given and not 0.
\<close>

fun collect ::
  "floats \<Rightarrow> int option \<Rightarrow> int option \<Rightarrow> pystr list \<Rightarrow> json list \<Rightarrow> py_exc + json list" where
  "collect F user_id limit [] transcriptions = Inr transcriptions"
| "collect F user_id limit (l # ls) transcriptions =
     (let line = strip l in
      if line = [] then collect F user_id limit ls transcriptions
      else
        (case loads line of
           None \<Rightarrow> collect F user_id limit ls transcriptions
         | Some record \<Rightarrow>
             (case (case user_id of
                      None \<Rightarrow> Inr False
                    | Some u \<Rightarrow>
                        (case dict_get record (lit ''user_id'') of
                           Inl e \<Rightarrow> Inl e
                         | Inr v \<Rightarrow> Inr (\<not> py_eq_int F v u))) of
                Inl e \<Rightarrow> Inl e
              | Inr skip \<Rightarrow>
                  if skip then collect F user_id limit ls transcriptions
                  else
                    (let transcriptions' = transcriptions @ [record] in
                     if (case limit of
                           None \<Rightarrow> False
                         | Some n \<Rightarrow> n \<noteq> 0 \<and> int (length transcriptions') \<ge> n)
                     then Inr transcriptions'
                     else collect F user_id limit ls transcriptions'))))"

definition get_transcriptions ::
  "floats \<Rightarrow> filesystem \<Rightarrow> path \<Rightarrow> int option \<Rightarrow> int option \<Rightarrow> storage_error + json list" where
  "get_transcriptions F fs file_path user_id limit =
     (if \<not> path_exists fs file_path then Inr []
      else
        (case read_text fs file_path of
           Inl e \<Rightarrow> Inl (StorageError e)
         | Inr text \<Rightarrow>
             (case collect F user_id limit (file_lines text) [] of
                Inl e \<Rightarrow> Inl (StorageError e)
              | Inr transcriptions \<Rightarrow> Inr transcriptions)))"

subsection \<open>\<open>get_storage_stats\<close>\<close>

text \<open>
  \<open>unique_users\<close> starts as a set and is replaced by its size after the loop; the
  field holds the one or the other.
\<close>

datatype users = Users_set "json list" | Users_count nat

record storage_stats =
  total_transcriptions :: nat
  unique_users :: users
  file_size_bytes :: nat
  file_exists :: bool

fun tally :: "floats \<Rightarrow> pystr list \<Rightarrow> nat \<times> json list \<Rightarrow> py_exc + nat \<times> json list" where
  "tally F [] acc = Inr acc"
| "tally F (l # ls) (n, seen) =
     (let line = strip l in
      if line = [] then tally F ls (n, seen)
      else
        (case loads line of
           None \<Rightarrow> tally F ls (n, seen)
         | Some record \<Rightarrow>
             (case dict_get record (lit ''user_id'') of
                Inl e \<Rightarrow> Inl e
              | Inr v \<Rightarrow>
                  (case set_add F seen v of
                     Inl e \<Rightarrow> Inl e
                   | Inr seen' \<Rightarrow> tally F ls (n + 1, seen')))))"

definition get_storage_stats :: "floats \<Rightarrow> filesystem \<Rightarrow> path \<Rightarrow> storage_error + storage_stats" where
  "get_storage_stats F fs file_path =
     (let stats = \<lparr>total_transcriptions = 0, unique_users = Users_set [],
                   file_size_bytes = 0, file_exists = False\<rparr>
      in if \<not> path_exists fs file_path then Inr stats
         else
           (let stats = stats\<lparr>file_exists := True,
                              file_size_bytes := length (contents fs file_path)\<rparr>
            in case read_text fs file_path of
                 Inl e \<Rightarrow> Inl (StorageError e)
               | Inr text \<Rightarrow>
                   (case tally F (file_lines text) (0, []) of
                      Inl e \<Rightarrow> Inl (StorageError e)
                    | Inr (n, seen) \<Rightarrow>
                        Inr (stats\<lparr>total_transcriptions := n,
                                   unique_users := Users_count (length seen)\<rparr>))))"

subsection \<open>\<open>backup_transcriptions\<close>\<close>

text \<open>
  The source is opened for reading, then the destination for writing, which empties
  it; only then the loop reads the source, block by block, and writes each block.
\<close>

definition backup_transcriptions ::
  "filesystem \<Rightarrow> path \<Rightarrow> path \<Rightarrow> (storage_error + bool) \<times> filesystem" where
  "backup_transcriptions fs file_path backup_path =
     (if \<not> path_exists fs file_path then (Inr False, fs)
      else
        (case mkdir_parents fs (parent backup_path) of
           Inl e \<Rightarrow> (Inl (StorageError e), fs)
         | Inr fs1 \<Rightarrow>
             (case open_read fs1 file_path of
                Some e \<Rightarrow> (Inl (StorageError e), fs1)
              | None \<Rightarrow>
                  (case open_write fs1 backup_path of
                     Inl e \<Rightarrow> (Inl (StorageError e), fs1)
                   | Inr fs2 \<Rightarrow>
                       (Inr True,
                        fold (\<lambda>chunk fs'. write_bytes fs' backup_path chunk)
                          (file_lines (contents fs2 file_path)) fs2)))))"

section \<open>Notions used in the statements\<close>

text \<open>A value that is not a container and not a float.\<close>

definition scalar :: "json \<Rightarrow> bool" where
  "scalar v =
     (case v of JNull \<Rightarrow> True | JBool _ \<Rightarrow> True | JInt _ \<Rightarrow> True | JStr _ \<Rightarrow> True | _ \<Rightarrow> False)"

text \<open>
  The values a file holds, in the order of its lines: what \<open>json.loads\<close> makes of each
  stripped line that it accepts. A blank line is among those it refuses.
\<close>

definition records_of :: "pystr list \<Rightarrow> json list" where
  "records_of ls = List.map_filter (\<lambda>l. loads (strip l)) ls"

definition is_object :: "json \<Rightarrow> bool" where
  "is_object v = (case v of JObj _ \<Rightarrow> True | _ \<Rightarrow> False)"

text \<open>A record passes the filter \<open>u\<close> when its \<open>user_id\<close> is equal to \<open>u\<close>.\<close>

definition wanted :: "floats \<Rightarrow> int \<Rightarrow> json \<Rightarrow> bool" where
  "wanted F u r =
     (case dict_get r (lit ''user_id'') of Inl e \<Rightarrow> False | Inr v \<Rightarrow> py_eq_int F v u)"

definition selected :: "floats \<Rightarrow> int option \<Rightarrow> json list \<Rightarrow> json list" where
  "selected F user_id rs = (case user_id of None \<Rightarrow> rs | Some u \<Rightarrow> filter (wanted F u) rs)"

definition limited :: "int option \<Rightarrow> json list \<Rightarrow> json list" where
  "limited limit rs = (case limit of None \<Rightarrow> rs | Some n \<Rightarrow> take (nat n) rs)"

text \<open>
  A run of saves, one after the other, each with its own clock reading and arguments;
  \<open>None\<close> when one of them raises. \<open>saved_record\<close> is the dictionary a save builds.
\<close>

type_synonym save_args = "datetime \<times> int \<times> int \<times> pystr \<times> pystr \<times> pystr \<times> pystr option"

definition saved_record :: "save_args \<Rightarrow> json" where
  "saved_record a =
     (case a of (now, user_id, message_id, file_id, transcription, file_type, filename) \<Rightarrow>
        transcript_record now user_id message_id file_id transcription file_type filename)"

definition saved_user :: "save_args \<Rightarrow> int" where
  "saved_user a = fst (snd a)"

fun save_all :: "floats \<Rightarrow> filesystem \<Rightarrow> path \<Rightarrow> save_args list \<Rightarrow> filesystem option" where
  "save_all F fs file_path [] = Some fs"
| "save_all F fs file_path (a # as) =
     (case a of (now, user_id, message_id, file_id, transcription, file_type, filename) \<Rightarrow>
        (case save_transcription F now fs file_path user_id message_id file_id transcription
                file_type filename of
           (Inr True, fs') \<Rightarrow> save_all F fs' file_path as
         | _ \<Rightarrow> None))"

text \<open>
  The text of a log that holds the records \<open>rs\<close>, one line each, and the shape of the
  records a save writes: an object with distinct keys whose values are scalars.
\<close>

definition log_text :: "floats \<Rightarrow> json list \<Rightarrow> pystr" where
  "log_text F rs = concat (map (\<lambda>r. dumps F r @ [10]) rs)"

definition flat_object :: "json \<Rightarrow> bool" where
  "flat_object r =
     (case r of
        JObj kvs \<Rightarrow> list_all (\<lambda>kv. scalar (snd kv)) kvs \<and> distinct (map fst kvs)
      | _ \<Rightarrow> False)"

section \<open>Properties of AuthService\<close>

lemma hexdigit_bound: "d < 16 \<Longrightarrow> hexdigit d < 128"
  by (simp add: hexdigit_def)

lemma is_ascii_hexlify: "is_ascii (hexlify bs)"
  by (induction bs) (auto simp: is_ascii_def hexlify_def hexdigit_bound)

lemma hexlify_range:
  "hexlify bs \<in> {s. set s \<subseteq> hexdigit ` {..<16} \<and> length s = 2 * length bs}"
  by (induction bs) (auto simp: hexlify_def)

lemma utf8_encode_ascii: "\<forall>c \<in> set s. c < 128 \<Longrightarrow> utf8_encode s = Inr s"
  by (induction s) (auto simp: utf8_char_def)

text \<open>The verification succeeds exactly when the \<open>try\<close> block computes the token.\<close>

lemma verify_eq_expected:
  "verify_telegram_webhook mac svc token update_data
     = (expected_signature mac svc update_data = Inr token)"
proof (cases "expected_signature mac svc update_data")
  case (Inl e)
  then show ?thesis by (simp add: verify_telegram_webhook_def)
next
  case (Inr expected)
  have asc: "is_ascii expected"
    using Inr by (auto simp: expected_signature_def is_ascii_hexlify split: sum.splits)
  show ?thesis
    using Inr asc by (auto simp: verify_telegram_webhook_def compare_digest_def)
qed

text \<open>
  C1, as stated, fails. The claim asks that for every key and body the token
  \<open>hex(HMAC-SHA256(k, b))\<close> is refused with every other body. A digest of 32 bytes has
  only finitely many hexadecimal spellings and there are infinitely many bodies, so
  whatever function of 32-byte digests \<open>mac\<close> is, two different bodies share a token,
  and the token of the one is accepted with the other.
\<close>

theorem verify_rejects_every_other_body_counterexample:
  "\<not> (\<exists>mac. (\<forall>k m. length (mac k m) = 32) \<and>
         (\<forall>svc b b' t. expected_signature mac svc b = Inr t \<and> b' \<noteq> b
            \<longrightarrow> \<not> verify_telegram_webhook mac svc t b'))"
proof
  assume "\<exists>mac. (\<forall>k m. length (mac k m) = 32) \<and>
         (\<forall>svc b b' t. expected_signature mac svc b = Inr t \<and> b' \<noteq> b
            \<longrightarrow> \<not> verify_telegram_webhook mac svc t b')"
  then obtain mac where len: "\<And>k m. length (mac k m) = 32"
    and claim: "\<And>svc b b' t. expected_signature mac svc b = Inr t \<Longrightarrow> b' \<noteq> b
            \<Longrightarrow> \<not> verify_telegram_webhook mac svc t b'"
    by blast
  define svc where "svc = \<lparr>allowed_user_ids = [], shared_secret = [], telegram_token = []\<rparr>"
  define body where "body = (\<lambda>n::nat. replicate n (97::nat))"
  define sig where "sig = (\<lambda>n. hexlify (mac [] (body n)))"
  have exp: "expected_signature mac svc (body n) = Inr (sig n)" for n
    by (simp add: expected_signature_def svc_def sig_def body_def utf8_encode_ascii)
  have "range sig \<subseteq> {s. set s \<subseteq> hexdigit ` {..<16} \<and> length s = 64}"
    using hexlify_range [of "mac [] (body n)" for n] by (auto simp: sig_def len)
  moreover have "finite {s. set s \<subseteq> hexdigit ` {..<16} \<and> length s = (64::nat)}"
    by (rule finite_lists_length_eq) simp
  ultimately have "finite (range sig)"
    by (rule finite_subset)
  then have "\<not> inj sig"
    using finite_imageD by fastforce
  then obtain m n where mn: "m \<noteq> n" "sig m = sig n"
    by (auto simp: inj_on_def)
  have "body n \<noteq> body m"
    using mn(1) by (auto simp: body_def dest: arg_cong [where f = length])
  then have "\<not> verify_telegram_webhook mac svc (sig m) (body n)"
    using claim [OF exp [of m]] by simp
  then show False
    using exp [of n] mn(2) by (simp add: verify_eq_expected)
qed

text \<open>
  C1, amended. For every key, body and token, \<open>verify_telegram_webhook\<close> returns true
  exactly when the secret and the body encode as UTF-8 and the token is the
  hexadecimal spelling of the digest of that key and that body. So it accepts the
  token computed for the body, refuses every other token for that body, refuses the
  token with another body unless that body has the same digest, and returns false,
  never an exception, when the computation fails.
\<close>

theorem verify_telegram_webhook_iff:
  "verify_telegram_webhook mac svc token update_data \<longleftrightarrow>
     (\<exists>key msg. utf8_encode (shared_secret svc) = Inr key \<and> utf8_encode update_data = Inr msg
        \<and> token = hexlify (mac key msg))"
  by (auto simp: verify_eq_expected expected_signature_def split: sum.splits)

theorem verify_telegram_webhook_iff_witness:
  "verify_telegram_webhook (\<lambda>k m. [length k, length m])
       \<lparr>allowed_user_ids = [111, 222], shared_secret = [115, 51], telegram_token = []\<rparr>
       [48, 50, 48, 50] [123, 125]
   \<and> \<not> verify_telegram_webhook (\<lambda>k m. [length k, length m])
       \<lparr>allowed_user_ids = [111, 222], shared_secret = [115, 51], telegram_token = []\<rparr>
       [48, 50, 48, 51] [123, 125]
   \<and> \<not> verify_telegram_webhook (\<lambda>k m. [length k, length m])
       \<lparr>allowed_user_ids = [111, 222], shared_secret = [115, 51], telegram_token = []\<rparr>
       [48, 50, 48, 50] [123, 55296, 125]"
  using
    verify_telegram_webhook_iff [of "\<lambda>k m. [length k, length m]"
      "\<lparr>allowed_user_ids = [111, 222], shared_secret = [115, 51], telegram_token = []\<rparr>"
      "[48, 50, 48, 50]" "[123, 125]"]
    verify_telegram_webhook_iff [of "\<lambda>k m. [length k, length m]"
      "\<lparr>allowed_user_ids = [111, 222], shared_secret = [115, 51], telegram_token = []\<rparr>"
      "[48, 50, 48, 51]" "[123, 125]"]
    verify_telegram_webhook_iff [of "\<lambda>k m. [length k, length m]"
      "\<lparr>allowed_user_ids = [111, 222], shared_secret = [115, 51], telegram_token = []\<rparr>"
      "[48, 50, 48, 50]" "[123, 55296, 125]"]
  by (simp add: utf8_char_def is_surrogate_def hexlify_def hexdigit_def)

text \<open>
  C2. \<open>authenticate_request\<close> checks in a fixed order. A token that is absent or empty
  fails as a missing token, whatever the keyed hash, the secret, the body and the user
  are, so no digest is computed for it. Otherwise a token that does not verify fails as
  an invalid signature, whoever the user is. Otherwise a user outside the allow-list
  fails as not authorized. The call returns true exactly when the token is not empty,
  the signature verifies and the user is in the allow-list; it never returns false.
\<close>

theorem authenticate_request_order:
  "(token = None \<or> token = Some [] \<longrightarrow>
      (\<forall>mac' svc' data' uid'.
         authenticate_request mac' svc' token data' uid' = Inl Missing_webhook_secret_token))
   \<and> (\<forall>t. token = Some t \<and> t \<noteq> [] \<and> \<not> verify_telegram_webhook mac svc t update_data \<longrightarrow>
         authenticate_request mac svc token update_data user_id = Inl Invalid_webhook_signature)
   \<and> (\<forall>t. token = Some t \<and> t \<noteq> [] \<and> verify_telegram_webhook mac svc t update_data
           \<and> user_id \<notin> set (allowed_user_ids svc) \<longrightarrow>
         authenticate_request mac svc token update_data user_id
           = Inl (User_not_authorized user_id))
   \<and> (authenticate_request mac svc token update_data user_id = Inr True \<longleftrightarrow>
        (\<exists>t. token = Some t \<and> t \<noteq> [] \<and> verify_telegram_webhook mac svc t update_data
           \<and> user_id \<in> set (allowed_user_ids svc)))
   \<and> authenticate_request mac svc token update_data user_id \<noteq> Inr False"
  by (auto simp: authenticate_request_def is_user_authorized_def split: option.splits)

theorem authenticate_request_order_witness:
  "authenticate_request (\<lambda>k m. [length k, length m])
       \<lparr>allowed_user_ids = [111, 222], shared_secret = [115, 51], telegram_token = []\<rparr>
       (Some [48, 50, 48, 50]) [123, 125] 222 = Inr True
   \<and> authenticate_request (\<lambda>k m. [length k, length m])
       \<lparr>allowed_user_ids = [111, 222], shared_secret = [115, 51], telegram_token = []\<rparr>
       (Some [48, 50, 48, 50]) [123, 125] 333 = Inl (User_not_authorized 333)
   \<and> authenticate_request (\<lambda>k m. [length k, length m])
       \<lparr>allowed_user_ids = [111, 222], shared_secret = [115, 51], telegram_token = []\<rparr>
       (Some [48, 50, 48, 51]) [123, 125] 333 = Inl Invalid_webhook_signature
   \<and> authenticate_request (\<lambda>k m. [length k, length m])
       \<lparr>allowed_user_ids = [111, 222], shared_secret = [115, 55296], telegram_token = []\<rparr>
       (Some []) [123, 125] 333 = Inl Missing_webhook_secret_token"
proof -
  let ?mac = "\<lambda>k m :: bytes. [length k, length m]"
  let ?svc = "\<lparr>allowed_user_ids = [111, 222], shared_secret = [115, 51], telegram_token = []\<rparr>"
  have good: "verify_telegram_webhook ?mac ?svc [48, 50, 48, 50] [123, 125]"
    by (simp add: verify_eq_expected expected_signature_def utf8_char_def hexlify_def
        hexdigit_def)
  have bad: "\<not> verify_telegram_webhook ?mac ?svc [48, 50, 48, 51] [123, 125]"
    by (simp add: verify_eq_expected expected_signature_def utf8_char_def hexlify_def
        hexdigit_def)
  show ?thesis
    using good bad
      authenticate_request_order [of "Some [48, 50, 48, 50]" ?mac ?svc "[123, 125]" 222]
      authenticate_request_order [of "Some [48, 50, 48, 50]" ?mac ?svc "[123, 125]" 333]
      authenticate_request_order [of "Some [48, 50, 48, 51]" ?mac ?svc "[123, 125]" 333]
      authenticate_request_order [of "Some []" ?mac ?svc "[123, 125]" 333]
    by simp
qed

section \<open>Properties of the library model\<close>

subsection \<open>UTF-8\<close>

lemma split3: "(c::nat) div 4096 * 4096 + c div 64 mod 64 * 64 + c mod 64 = c"
proof -
  have "c div 4096 = c div 64 div 64" by (simp add: div_mult2_eq [symmetric])
  then have "c div 4096 * 64 + c div 64 mod 64 = c div 64" by simp
  then have "(c div 4096 * 64 + c div 64 mod 64) * 64 + c mod 64 = c" by simp
  then show ?thesis by (simp add: algebra_simps)
qed

lemma split4:
  "(c::nat) div 262144 * 262144 + c div 4096 mod 64 * 4096 + c div 64 mod 64 * 64 + c mod 64 = c"
proof -
  have "c div 262144 = c div 4096 div 64" by (simp add: div_mult2_eq [symmetric])
  then have "c div 262144 * 64 + c div 4096 mod 64 = c div 4096" by simp
  then have "(c div 262144 * 64 + c div 4096 mod 64) * 4096 = c div 4096 * 4096" by simp
  then have "c div 262144 * 262144 + c div 4096 mod 64 * 4096 = c div 4096 * 4096"
    by (simp add: algebra_simps)
  then show ?thesis using split3 [of c] by simp
qed

lemma utf8_decode_char:
  assumes "utf8_char c = Some bs"
  shows "utf8_decode (bs @ rest)
           = (case utf8_decode rest of Inl e \<Rightarrow> Inl e | Inr cs \<Rightarrow> Inr (c # cs))"
proof -
  consider (a) "c < 128" | (b) "128 \<le> c" "c < 2048" | (c) "2048 \<le> c" "c < 65536" "\<not> is_surrogate c"
    | (d) "65536 \<le> c" "c < 1114112"
    using assms by (auto simp: utf8_char_def split: if_splits)
  then show ?thesis
  proof cases
    case a
    then show ?thesis using assms by (auto simp: utf8_char_def)
  next
    case b
    then have bs: "bs = [192 + c div 64, 128 + c mod 64]"
      using assms by (auto simp: utf8_char_def)
    have "2 \<le> c div 64" using div_le_mono [OF b(1), of 64] by simp
    moreover have "c div 64 < 32" using b(2) by (simp add: less_mult_imp_div_less)
    moreover have "c div 64 * 64 + c mod 64 = c" by simp
    ultimately show ?thesis
      by (simp add: bs is_cont_def split: sum.splits)
  next
    case c
    then have bs: "bs = [224 + c div 4096, 128 + c div 64 mod 64, 128 + c mod 64]"
      using assms by (auto simp: utf8_char_def)
    have r: "c div 4096 < 16" using c(2) by (simp add: less_mult_imp_div_less)
    show ?thesis
      using r c by (simp add: bs is_cont_def split3 Let_def split: sum.splits)
  next
    case d
    then have bs: "bs = [240 + c div 262144, 128 + c div 4096 mod 64, 128 + c div 64 mod 64,
                         128 + c mod 64]"
      using assms by (auto simp: utf8_char_def)
    have r: "c div 262144 < 5" using d(2) by (simp add: less_mult_imp_div_less)
    show ?thesis
      using r d by (simp add: bs is_cont_def split4 Let_def split: sum.splits)
  qed
qed

lemma utf8_encode_append:
  "utf8_encode (s @ t) =
     (case utf8_encode s of
        Inl e \<Rightarrow> Inl e
      | Inr a \<Rightarrow> (case utf8_encode t of Inl e \<Rightarrow> Inl e | Inr b \<Rightarrow> Inr (a @ b)))"
  by (induction s) (auto split: option.splits sum.splits)

lemma utf8_decode_encode_append:
  "utf8_encode s = Inr bs \<Longrightarrow>
     utf8_decode (bs @ rest)
       = (case utf8_decode rest of Inl e \<Rightarrow> Inl e | Inr cs \<Rightarrow> Inr (s @ cs))"
proof (induction s arbitrary: bs)
  case Nil
  then show ?case by (simp split: sum.splits)
next
  case (Cons c s)
  then obtain b1 b2 where b: "utf8_char c = Some b1" "utf8_encode s = Inr b2" "bs = b1 @ b2"
    by (auto split: option.splits sum.splits)
  show ?case
    using Cons.IH [OF b(2)] utf8_decode_char [OF b(1), of "b2 @ rest"]
    by (simp add: b(3) split: sum.splits)
qed

lemma utf8_decode_encode: "utf8_encode s = Inr bs \<Longrightarrow> utf8_decode bs = Inr s"
  using utf8_decode_encode_append [of s bs "[]"] by simp


subsection \<open>JSON: what \<open>dumps\<close> writes, \<open>loads\<close> reads back\<close>

lemma hexval_hexdigit: "d < 16 \<Longrightarrow> hexval (hexdigit d) = Some d"
  by (auto simp: hexval_def hexdigit_def)

lemma hex4_control:
  assumes "c < 32"
  shows "hex4 48 48 (hexdigit (c div 16)) (hexdigit (c mod 16)) = Some c"
proof -
  have "c div 16 < 16" using assms by simp
  then show ?thesis
    by (simp add: hex4_def hexval_hexdigit) (simp add: hexval_def)
qed

lemma scanstring_escape_char: "scanstring (escape_char c @ t) = push c (scanstring t)"
proof -
  consider (quote) "c = 34" | (bs) "c = 92" | (nl) "c = 10" | (cr) "c = 13" | (tab) "c = 9"
    | (b) "c = 8" | (f) "c = 12"
    | (ctl) "c < 32" "c \<noteq> 10" "c \<noteq> 13" "c \<noteq> 9" "c \<noteq> 8" "c \<noteq> 12"
    | (plain) "32 \<le> c" "c \<noteq> 34" "c \<noteq> 92"
    by linarith
  then show ?thesis
  proof cases
    case ctl
    then have e: "escape_char c = [92, 117, 48, 48, hexdigit (c div 16), hexdigit (c mod 16)]"
      by (simp add: escape_char_def)
    show ?thesis
      using ctl(1) by (simp add: e hex4_control)
  qed (simp_all add: escape_char_def unescape_def)
qed

lemma scanstring_escaped:
  "scanstring (concat (map escape_char s) @ 34 # rest) = Some (s, rest)"
  by (induction s) (simp_all add: scanstring_escape_char push_def)

lemma scan_once_string: "scan_once (encode_basestring s @ rest) = Some (JStr s, rest)"
  by (simp add: encode_basestring_def scanstring_escaped)

lemma str_nat_small: "n < 10 \<Longrightarrow> str_nat n = [48 + n]"
  by simp

lemma str_nat_big: "\<not> n < 10 \<Longrightarrow> str_nat n = str_nat (n div 10) @ [48 + n mod 10]"
  by simp

declare str_nat.simps [simp del]

lemma str_nat_digits: "\<forall>c \<in> set (str_nat n). is_digit c"
proof (induction n rule: str_nat.induct)
  case (1 n)
  show ?case
  proof (cases "n < 10")
    case True
    then show ?thesis by (simp add: str_nat_small is_digit_def)
  next
    case False
    have "n mod 10 < 10" by simp
    then have "is_digit (48 + n mod 10)" unfolding is_digit_def by linarith
    then show ?thesis using 1 False by (simp add: str_nat_big)
  qed
qed

lemma str_nat_nonempty: "str_nat n \<noteq> []"
  by (cases "n < 10") (simp_all add: str_nat_small str_nat_big)

lemma str_nat_hd: "0 < n \<Longrightarrow> 49 \<le> hd (str_nat n) \<and> hd (str_nat n) \<le> 57"
proof (induction n rule: str_nat.induct)
  case (1 n)
  show ?case
  proof (cases "n < 10")
    case True
    then show ?thesis using 1(2) by (simp add: str_nat_small)
  next
    case False
    then have "0 < n div 10" by simp
    then show ?thesis
      using 1(1) False by (simp add: str_nat_big str_nat_nonempty)
  qed
qed

lemma dec_snoc: "dec (ds @ [d]) = 10 * dec ds + (d - 48)"
  by (simp add: dec_def)

lemma dec_str_nat: "dec (str_nat n) = n"
proof (induction n rule: str_nat.induct)
  case (1 n)
  show ?case
  proof (cases "n < 10")
    case True
    then show ?thesis by (simp add: str_nat_small dec_def)
  next
    case False
    then show ?thesis using 1 by (simp add: str_nat_big dec_snoc)
  qed
qed

lemma takeWhile_digits:
  "\<forall>c \<in> set ds. is_digit c \<Longrightarrow> \<not> is_digit c \<Longrightarrow>
     takeWhile is_digit (ds @ c # rest) = ds \<and> dropWhile is_digit (ds @ c # rest) = c # rest"
  by (simp add: takeWhile_append2 dropWhile_append2)

lemma int_part_str_nat:
  assumes "\<not> is_digit c"
  shows "int_part (str_nat n @ c # rest) = Some (str_nat n, c # rest)"
proof (cases "n = 0")
  case True
  then show ?thesis by (simp add: str_nat_small int_part_def)
next
  case False
  obtain d ds where s: "str_nat n = d # ds"
    using str_nat_nonempty [of n] by (cases "str_nat n") auto
  have d: "49 \<le> d" "d \<le> 57" using str_nat_hd [of n] False s by auto
  have ds: "\<forall>c \<in> set ds. is_digit c" using str_nat_digits [of n] s by simp
  show ?thesis
    using d takeWhile_digits [OF ds assms, of rest] by (simp add: s int_part_def)
qed

lemma frac_part_none: "c \<noteq> 46 \<Longrightarrow> frac_part (c # rest) = ([], c # rest)"
  by (simp add: frac_part_def split: list.splits)

lemma exp_part_none: "c \<noteq> 101 \<Longrightarrow> c \<noteq> 69 \<Longrightarrow> exp_part (c # rest) = ([], c # rest)"
  by (simp add: exp_part_def)

lemma match_number_str_nat:
  assumes "\<not> is_digit c" "c \<noteq> 46" "c \<noteq> 101" "c \<noteq> 69"
  shows "match_number (str_nat n @ c # rest) = Some (JInt (int n), c # rest)"
proof -
  obtain d ds where s: "str_nat n = d # ds"
    using str_nat_nonempty [of n] by (cases "str_nat n") auto
  have "is_digit d" using str_nat_digits [of n] s by simp
  then have d: "d \<noteq> 45" by (auto simp: is_digit_def)
  have ip: "int_part (d # ds @ c # rest) = Some (str_nat n, c # rest)"
    using int_part_str_nat [OF assms(1), of n rest] s by simp
  show ?thesis
    using d assms by (simp add: match_number_def s ip frac_part_none exp_part_none dec_str_nat [of n, unfolded s])
qed

lemma match_number_str_int:
  assumes "\<not> is_digit c" "c \<noteq> 46" "c \<noteq> 101" "c \<noteq> 69"
  shows "match_number (str_int i @ c # rest) = Some (JInt i, c # rest)"
proof (cases "i < 0")
  case False
  then show ?thesis using match_number_str_nat [OF assms, of "nat i" rest] by (simp add: str_int_def)
next
  case True
  have ip: "int_part (str_nat (nat (- i)) @ c # rest) = Some (str_nat (nat (- i)), c # rest)"
    by (rule int_part_str_nat [OF assms(1)])
  show ?thesis
    using True assms
    by (simp add: str_int_def match_number_def ip frac_part_none exp_part_none dec_str_nat)
qed

lemma str_int_hd: "str_int i = d # ds \<Longrightarrow> d = 45 \<or> is_digit d"
  using str_nat_digits [of "nat i"] by (auto simp: str_int_def split: if_splits)

lemma str_int_nonempty: "str_int i \<noteq> []"
  by (simp add: str_int_def str_nat_nonempty)

declare scan_once.simps [simp del] parse_members.simps [simp del] parse_elems.simps [simp del]

lemma lit_Nil [simp]: "lit [] = []"
  by (simp add: lit_def)

lemma lit_Cons [simp]: "lit (c # cs) = of_char c # lit cs"
  by (simp add: lit_def)

lemma scan_once_number:
  assumes "is_digit d \<or> (d = 45 \<and> ds \<noteq> [] \<and> is_digit (hd ds))"
  shows "scan_once (d # ds) = match_number (d # ds)"
proof -
  have "d \<noteq> 34" "d \<noteq> 123" "d \<noteq> 91" "d \<noteq> 110" "d \<noteq> 116" "d \<noteq> 102" "d \<noteq> 78" "d \<noteq> 73"
    using assms by (auto simp: is_digit_def)
  moreover have "\<not> starts_with (lit ''-Infinity'') (d # ds)"
  proof (cases ds)
    case Nil
    then show ?thesis by (simp add: starts_with_def)
  next
    case (Cons e es)
    then have "d = 45 \<longrightarrow> e \<noteq> 73" using assms by (auto simp: is_digit_def)
    then show ?thesis by (auto simp: starts_with_def Cons)
  qed
  ultimately show ?thesis
    by (auto simp: scan_once.simps [of "d # ds"] starts_with_def)
qed

lemma scan_once_int:
  assumes "c = 44 \<or> c = 125"
  shows "scan_once (str_int i @ c # rest) = Some (JInt i, c # rest)"
proof -
  have c: "\<not> is_digit c" "c \<noteq> 46" "c \<noteq> 101" "c \<noteq> 69"
    using assms by (auto simp: is_digit_def)
  obtain d ds where s: "str_int i = d # ds"
    using str_int_nonempty [of i] by (cases "str_int i") auto
  have "is_digit d \<or> (d = 45 \<and> ds @ c # rest \<noteq> [] \<and> is_digit (hd (ds @ c # rest)))"
  proof (cases "i < 0")
    case True
    then have "d = 45" "ds = str_nat (nat (- i))" using s by (auto simp: str_int_def)
    moreover have "is_digit (hd (str_nat (nat (- i))))"
      using str_nat_digits [of "nat (- i)"] str_nat_nonempty [of "nat (- i)"]
      by (cases "str_nat (nat (- i))") auto
    ultimately show ?thesis using str_nat_nonempty [of "nat (- i)"] by simp
  next
    case False
    then show ?thesis using s str_nat_digits [of "nat i"] by (auto simp: str_int_def)
  qed
  then have "scan_once (d # ds @ c # rest) = match_number (d # ds @ c # rest)"
    by (rule scan_once_number)
  then show ?thesis
    using match_number_str_int [OF c, of i rest] by (simp add: s)
qed

lemma scan_once_scalar:
  assumes "scalar v" "c = 44 \<or> c = 125"
  shows "scan_once (dumps F v @ c # rest) = Some (v, c # rest)"
proof (cases v)
  case JNull
  then show ?thesis by (simp add: scan_once.simps [of "110 # _"] starts_with_def)
next
  case (JBool b)
  then show ?thesis
    by (cases b)
      (simp_all add: scan_once.simps [of "116 # _"] scan_once.simps [of "102 # _"] starts_with_def)
next
  case (JInt i)
  then show ?thesis using scan_once_int [OF assms(2)] by simp
next
  case (JStr s)
  then show ?thesis by (simp add: scan_once_string)
qed (use assms(1) in \<open>simp_all add: scalar_def\<close>)

lemma dumps_scalar_hd:
  assumes "scalar v"
  shows "\<exists>d ds. dumps F v = d # ds \<and> \<not> is_ws d"
proof (cases v)
  case (JInt i)
  obtain d ds where s: "str_int i = d # ds"
    using str_int_nonempty [of i] by (cases "str_int i") auto
  then have "\<not> is_ws d" using str_int_hd [OF s] by (auto simp: is_ws_def is_digit_def)
  then show ?thesis using JInt s by simp
qed (use assms in \<open>simp_all add: scalar_def is_ws_def encode_basestring_def\<close>)

lemma skip_ws_Cons: "skip_ws (c # cs) = (if is_ws c then skip_ws cs else c # cs)"
  by (simp add: skip_ws_def)

lemma skip_ws_Nil [simp]: "skip_ws [] = []"
  by (simp add: skip_ws_def)

lemma parse_members_step:
  assumes "scalar v"
  shows "parse_members
           (encode_basestring k @ lit '': '' @ dumps F v @ 44 # 32 # 34 # nxt) acc
         = parse_members (34 # nxt) (dict_set acc k v)"
    and "parse_members (encode_basestring k @ lit '': '' @ dumps F v @ 125 # rest) acc
         = Some (JObj (dict_set acc k v), rest)"
proof -
  obtain d ds where dv: "dumps F v = d # ds" "\<not> is_ws d"
    using dumps_scalar_hd [OF assms] by blast
  have v1: "scan_once (d # ds @ 44 # 32 # 34 # nxt) = Some (v, 44 # 32 # 34 # nxt)"
    using scan_once_scalar [OF assms, of 44 F "32 # 34 # nxt"] by (simp add: dv)
  have v2: "scan_once (d # ds @ 125 # rest) = Some (v, 125 # rest)"
    using scan_once_scalar [OF assms, of 125 F rest] by (simp add: dv)
  show "parse_members
           (encode_basestring k @ lit '': '' @ dumps F v @ 44 # 32 # 34 # nxt) acc
         = parse_members (34 # nxt) (dict_set acc k v)"
    using dv(2)
    by (subst parse_members.simps)
      (simp add: encode_basestring_def scanstring_escaped skip_ws_Cons is_ws_def dv(1) v1)
  show "parse_members (encode_basestring k @ lit '': '' @ dumps F v @ 125 # rest) acc
         = Some (JObj (dict_set acc k v), rest)"
    using dv(2)
    by (subst parse_members.simps)
      (simp add: encode_basestring_def scanstring_escaped skip_ws_Cons is_ws_def dv(1) v2)
qed

lemma parse_members_flat:
  assumes "kvs \<noteq> []" "\<forall>kv \<in> set kvs. scalar (snd kv)"
  shows "parse_members
           (join (lit '', '')
              (map (\<lambda>kv. encode_basestring (fst kv) @ lit '': '' @ dumps F (snd kv)) kvs)
            @ 125 # rest) acc
         = Some (JObj (foldl (\<lambda>a kv. dict_set a (fst kv) (snd kv)) acc kvs), rest)"
  using assms
proof (induction kvs arbitrary: acc rule: list_nonempty_induct)
  case (single kv)
  then show ?case using parse_members_step(2) [of "snd kv" "fst kv" F rest acc] by simp
next
  case (cons kv kvs)
  obtain kv' kvs' where k: "kvs = kv' # kvs'"
    using cons.hyps by (cases kvs) auto
  let ?m = "\<lambda>kv. encode_basestring (fst kv) @ lit '': '' @ dumps F (snd kv)"
  obtain nxt where nxt: "join (lit '', '') (map ?m kvs) @ 125 # rest = 34 # nxt"
    by (cases kvs') (auto simp: k encode_basestring_def)
  have "parse_members (join (lit '', '') (map ?m (kv # kvs)) @ 125 # rest) acc
          = parse_members (?m kv @ 44 # 32 # 34 # nxt) acc"
    using nxt by (simp add: k)
  also have "\<dots> = parse_members (34 # nxt) (dict_set acc (fst kv) (snd kv))"
    using parse_members_step(1) [of "snd kv" "fst kv" F nxt acc] cons.prems by simp
  also have "\<dots> = Some (JObj (foldl (\<lambda>a kv. dict_set a (fst kv) (snd kv))
                                  (dict_set acc (fst kv) (snd kv)) kvs), rest)"
    using cons.IH [of "dict_set acc (fst kv) (snd kv)"] cons.prems nxt by simp
  finally show ?case by simp
qed

lemma dict_set_fresh: "k \<notin> fst ` set acc \<Longrightarrow> dict_set acc k v = acc @ [(k, v)]"
  by (induction acc) auto

lemma foldl_dict_set_distinct:
  "distinct (map fst (acc @ kvs)) \<Longrightarrow>
     foldl (\<lambda>a kv. dict_set a (fst kv) (snd kv)) acc kvs = acc @ kvs"
proof (induction kvs arbitrary: acc)
  case Nil
  then show ?case by simp
next
  case (Cons kv kvs)
  have "dict_set acc (fst kv) (snd kv) = acc @ [kv]"
    using Cons.prems by (simp add: dict_set_fresh)
  then show ?case using Cons.IH [of "acc @ [kv]"] Cons.prems by simp
qed

text \<open>
  An object whose values are scalars and whose keys are distinct is read back as it
  was written.
\<close>

lemma loads_dumps_flat:
  assumes "\<forall>kv \<in> set kvs. scalar (snd kv)" "distinct (map fst kvs)"
  shows "loads (dumps F (JObj kvs)) = Some (JObj kvs)"
proof (cases kvs)
  case Nil
  then show ?thesis
    by (simp add: loads_def starts_with_def skip_ws_Cons is_ws_def scan_once.simps [of "123 # _"])
next
  case (Cons kv kvs')
  let ?m = "\<lambda>kv. encode_basestring (fst kv) @ lit '': '' @ dumps F (snd kv)"
  obtain nxt where nxt: "join (lit '', '') (map ?m kvs) @ [125] = 34 # nxt"
    by (cases kvs') (auto simp: Cons encode_basestring_def)
  have "parse_members (join (lit '', '') (map ?m kvs) @ 125 # []) []
          = Some (JObj (foldl (\<lambda>a kv. dict_set a (fst kv) (snd kv)) [] kvs), [])"
    using assms(1) Cons by (intro parse_members_flat) auto
  then have "parse_members (34 # nxt) [] = Some (JObj kvs, [])"
    using foldl_dict_set_distinct [of "[]" kvs] assms(2) nxt by simp
  then show ?thesis
    using nxt
    by (simp add: loads_def starts_with_def skip_ws_Cons is_ws_def
        scan_once.simps [of "123 # _"])
qed

subsection \<open>Lines of text\<close>

lemma universal_newlines_id: "13 \<notin> set s \<Longrightarrow> universal_newlines s = s"
  by (induction s rule: universal_newlines.induct) auto

lemma file_lines_line: "10 \<notin> set s \<Longrightarrow> file_lines (s @ 10 # rest) = (s @ [10]) # file_lines rest"
  by (induction s) auto


lemma strip_line:
  assumes "s \<noteq> []" "\<not> is_space (hd s)" "\<not> is_space (last s)"
  shows "strip (s @ [10]) = s"
proof -
  have "dropWhile is_space (s @ [10]) = s @ [10]"
    using assms(1,2) by (cases s) auto
  moreover have "dropWhile is_space (rev s) = rev s"
    using assms(1,3) by (cases "rev s") (auto simp: last_rev [symmetric] simp del: last_rev)
  ultimately show ?thesis
    by (simp add: strip_def is_space_def)
qed

subsection \<open>The text of a record\<close>

lemma set_join: "set (join sep xs) \<subseteq> set sep \<union> \<Union> (set ` set xs)"
  by (induction sep xs rule: join.induct) auto

lemma escape_char_no_newline: "10 \<notin> set (escape_char c) \<and> 13 \<notin> set (escape_char c)"
proof -
  have "hexdigit d \<noteq> 10 \<and> hexdigit d \<noteq> 13" for d
    by (simp add: hexdigit_def)
  then show ?thesis by (auto simp: escape_char_def)
qed

lemma encode_basestring_no_newline:
  "10 \<notin> set (encode_basestring s) \<and> 13 \<notin> set (encode_basestring s)"
  using escape_char_no_newline by (auto simp: encode_basestring_def)

lemma str_nat_no_newline: "10 \<notin> set (str_nat n) \<and> 13 \<notin> set (str_nat n)"
  using str_nat_digits [of n] by (fastforce simp: is_digit_def)

lemma str_int_no_newline: "10 \<notin> set (str_int i) \<and> 13 \<notin> set (str_int i)"
  using str_nat_no_newline by (simp add: str_int_def)

lemma dumps_scalar_no_newline:
  "scalar v \<Longrightarrow> 10 \<notin> set (dumps F v) \<and> 13 \<notin> set (dumps F v)"
  using encode_basestring_no_newline str_int_no_newline
  by (cases v) (auto simp: scalar_def)

lemma dumps_flat_no_newline:
  assumes "\<forall>kv \<in> set kvs. scalar (snd kv)"
  shows "10 \<notin> set (dumps F (JObj kvs)) \<and> 13 \<notin> set (dumps F (JObj kvs))"
proof -
  let ?m = "\<lambda>kv. encode_basestring (fst kv) @ lit '': '' @ dumps F (snd kv)"
  have m: "10 \<notin> set (?m kv) \<and> 13 \<notin> set (?m kv)" if "kv \<in> set kvs" for kv
    using that assms encode_basestring_no_newline [of "fst kv"]
      dumps_scalar_no_newline [of "snd kv" F] by simp
  have "10 \<notin> set (join (lit '', '') (map ?m kvs)) \<and> 13 \<notin> set (join (lit '', '') (map ?m kvs))"
    using set_join [of "lit '', ''" "map ?m kvs"] m by fastforce
  then show ?thesis by simp
qed

lemma strip_dumps_object: "strip (dumps F (JObj kvs) @ [10]) = dumps F (JObj kvs)"
  by (rule strip_line) (simp_all add: is_space_def)

lemma transcript_record_flat:
  "\<exists>kvs. transcript_record now user_id message_id file_id transcription file_type filename
            = JObj kvs
         \<and> (\<forall>kv \<in> set kvs. scalar (snd kv)) \<and> distinct (map fst kvs)"
  by (simp add: transcript_record_def scalar_def split: option.splits)

subsection \<open>The file system\<close>

declare mkdir_parents.simps [simp del]

lemma lookup_update:
  "d \<noteq> [] \<Longrightarrow> lookup (fs(d \<mapsto> n)) q = (if q = d then Some n else lookup fs q)"
  by (simp add: lookup_def)

lemma os_mkdir_Inr:
  assumes "os_mkdir fs d = Inr fs'"
  shows "d \<noteq> []" "lookup fs d = None"
    "lookup fs' q = (if q = d then Some Dir else lookup fs q)"
proof -
  have *: "lookup fs d = None \<and> fs' = fs(d \<mapsto> Dir)"
    using assms by (auto simp: os_mkdir_def split: if_splits option.splits node.splits)
  then show "d \<noteq> []" "lookup fs d = None"
    by (auto simp: lookup_def)
  then show "lookup fs' q = (if q = d then Some Dir else lookup fs q)"
    using * by (simp add: lookup_update)
qed

text \<open>Making directories adds directories where nothing was, and changes nothing else.\<close>

lemma mkdir_parents_frame:
  "mkdir_parents fs d = Inr fs' \<Longrightarrow>
     lookup fs' q = lookup fs q \<or> (lookup fs q = None \<and> lookup fs' q = Some Dir)"
proof (induction fs d arbitrary: fs' rule: mkdir_parents.induct)
  case (1 fs d)
  show ?case
  proof (cases "os_mkdir fs d")
    case (Inr fs0)
    then have "fs' = fs0" using "1.prems" by (simp add: mkdir_parents.simps [of fs d])
    then show ?thesis
      using os_mkdir_Inr(2) [OF Inr] os_mkdir_Inr(3) [OF Inr, of q] by auto
  next
    case (Inl e)
    show ?thesis
    proof (cases "e = FileNotFoundError")
      case False
      then have "fs' = fs"
        using "1.prems" Inl by (simp add: mkdir_parents.simps [of fs d] split: if_splits)
      then show ?thesis by simp
    next
      case True
      then have d: "d \<noteq> []"
        using "1.prems" Inl by (auto simp: mkdir_parents.simps [of fs d])
      then obtain fs1 where fs1: "mkdir_parents fs (parent d) = Inr fs1"
        using "1.prems" Inl True
        by (auto simp: mkdir_parents.simps [of fs d] split: sum.splits)
      have ih: "lookup fs1 q = lookup fs q \<or> (lookup fs q = None \<and> lookup fs1 q = Some Dir)"
        using "1.IH" [OF Inl True d fs1] .
      show ?thesis
      proof (cases "os_mkdir fs1 d")
        case (Inr fs2)
        then have "fs' = fs2"
          using "1.prems" Inl True d fs1 by (simp add: mkdir_parents.simps [of fs d])
        then show ?thesis
          using os_mkdir_Inr(2) [OF Inr] os_mkdir_Inr(3) [OF Inr, of q] ih by auto
      next
        case (Inl e2)
        then have "fs' = fs1"
          using "1.prems" \<open>os_mkdir fs d = Inl e\<close> True d fs1
          by (simp add: mkdir_parents.simps [of fs d] split: if_splits)
        then show ?thesis using ih by simp
      qed
    qed
  qed
qed



lemma open_check_None:
  assumes "open_check fs p = None"
  shows "p \<noteq> []" "lookup fs p \<noteq> Some Dir"
  using assms by (auto simp: open_check_def lookup_def split: option.splits node.splits if_splits)

section \<open>Properties of TranscriptStorage\<close>

subsection \<open>What a successful save writes\<close>

lemma save_transcription_success:
  assumes "save_transcription F now fs p user_id message_id file_id transcription file_type
             filename = (Inr True, fs')"
  shows "\<exists>bs. utf8_encode (dumps F (transcript_record now user_id message_id file_id
                   transcription file_type filename) @ [10]) = Inr bs
           \<and> lookup fs' p = Some (File (contents fs p @ bs))
           \<and> lookup fs p \<noteq> Some Dir
           \<and> (\<forall>q. q \<noteq> p \<longrightarrow> lookup fs' q = lookup fs q
                              \<or> (lookup fs q = None \<and> lookup fs' q = Some Dir))"
proof -
  let ?r = "transcript_record now user_id message_id file_id transcription file_type filename"
  obtain fs1 fs2 bs where
    mk: "mkdir_parents fs (parent p) = Inr fs1" and
    op: "open_append fs1 p = Inr fs2" and
    en: "utf8_encode (dumps F ?r @ [10]) = Inr bs" and
    wr: "fs' = write_bytes fs2 p bs"
    using assms by (auto simp: save_transcription_def Let_def split: sum.splits)
  have chk: "open_check fs1 p = None"
    using op by (auto simp: open_append_def split: option.splits)
  have p: "p \<noteq> []" and nd: "lookup fs1 p \<noteq> Some Dir"
    using open_check_None [OF chk] by auto
  have fr: "lookup fs1 q = lookup fs q \<or> (lookup fs q = None \<and> lookup fs1 q = Some Dir)" for q
    using mkdir_parents_frame [OF mk] .
  have same: "lookup fs1 p = lookup fs p"
    using fr [of p] nd by auto
  have fs2: "lookup fs2 q = (if q = p \<and> lookup fs1 p = None then Some (File []) else lookup fs1 q)"
    for q
    using op chk p by (auto simp: open_append_def lookup_update split: option.splits)
  have c2: "contents fs2 p = contents fs p"
    using fs2 [of p] same by (auto simp: contents_def)
  have l': "lookup fs' q = (if q = p then Some (File (contents fs p @ bs)) else lookup fs2 q)" for q
    using p c2 by (simp add: wr write_bytes_def lookup_update)
  show ?thesis
    using en l' fs2 fr same nd by (intro exI [of _ bs]) auto
qed

subsection \<open>When a save succeeds\<close>

lemma encodable_append [simp]: "encodable (a @ b) \<longleftrightarrow> encodable a \<and> encodable b"
  by (auto simp: encodable_def)

lemma encodable_Cons [simp]: "encodable (c # s) \<longleftrightarrow> utf8_char c \<noteq> None \<and> encodable s"
  by (auto simp: encodable_def)

lemma encodable_Nil [simp]: "encodable []"
  by (simp add: encodable_def)

















subsection \<open>The loop of \<open>get_transcriptions\<close>\<close>

lemma loads_Nil [simp]: "loads [] = None"
  by (simp add: loads_def starts_with_def scan_once.simps [of "[]"])

lemma records_of_Nil [simp]: "records_of [] = []"
  by (simp add: records_of_def map_filter_simps)

lemma records_of_Cons:
  "records_of (l # ls) = (case loads (strip l) of None \<Rightarrow> records_of ls | Some r \<Rightarrow> r # records_of ls)"
  by (simp add: records_of_def map_filter_simps split: option.splits)

lemma records_of_append [simp]: "records_of (a @ b) = records_of a @ records_of b"
  by (simp add: records_of_def map_filter_def)

text \<open>With no filter nothing is looked at in a record, so nothing can fail.\<close>

lemma collect_unfiltered:
  assumes "limit = None \<or> limit = Some 0"
  shows "collect F None limit ls acc = Inr (acc @ records_of ls)"
  using assms
  by (induction ls arbitrary: acc) (auto simp: records_of_Cons Let_def split: option.splits)




lemma selected_Nil [simp]: "selected F user_id [] = []"
  by (simp add: selected_def split: option.splits)



subsection \<open>A log written by saves\<close>

lemma flat_objectE:
  assumes "flat_object r"
  obtains kvs where "r = JObj kvs" "\<forall>kv \<in> set kvs. scalar (snd kv)" "distinct (map fst kvs)"
  using assms by (cases r) (auto simp: flat_object_def list_all_iff)

lemma flat_saved_record: "flat_object (saved_record a)"
proof -
  obtain now user_id message_id file_id transcription file_type filename
    where a: "a = (now, user_id, message_id, file_id, transcription, file_type, filename)"
    by (cases a) auto
  show ?thesis
    using transcript_record_flat [of now user_id message_id file_id transcription file_type
        filename]
    by (auto simp: a saved_record_def flat_object_def list_all_iff)
qed

lemma log_text_Nil [simp]: "log_text F [] = []"
  by (simp add: log_text_def)

lemma log_text_Cons: "log_text F (r # rs) = dumps F r @ 10 # log_text F rs"
  by (simp add: log_text_def)

lemma log_text_snoc: "log_text F (rs @ [r]) = log_text F rs @ dumps F r @ [10]"
  by (simp add: log_text_def)

lemma log_text_no_cr: "\<forall>r \<in> set rs. flat_object r \<Longrightarrow> 13 \<notin> set (log_text F rs)"
proof (induction rs)
  case Nil
  then show ?case by simp
next
  case (Cons r rs)
  obtain kvs where "r = JObj kvs" "\<forall>kv \<in> set kvs. scalar (snd kv)"
    using Cons.prems by (auto elim: flat_objectE)
  then have "13 \<notin> set (dumps F r)"
    using dumps_flat_no_newline [of kvs F] by simp
  then show ?case using Cons by (simp add: log_text_Cons)
qed


lemma read_text_log:
  assumes "lookup fs p = Some (File bs)" "utf8_encode (log_text F rs) = Inr bs"
    "\<forall>r \<in> set rs. flat_object r"
  shows "read_text fs p = Inr (log_text F rs)"
  using assms utf8_decode_encode [OF assms(2)] log_text_no_cr [OF assms(3), of F]
  by (simp add: read_text_def open_read_def contents_def universal_newlines_id)

text \<open>
  After a run of saves on a path where nothing was, the file holds the encoded text of
  the saved records, in the order of the saves.
\<close>

lemma save_all_log_step:
  assumes "save_all F fs p as = Some fs'"
    "utf8_encode (log_text F rs) = Inr (contents fs p)"
    "rs \<noteq> [] \<longrightarrow> lookup fs p = Some (File (contents fs p))"
  shows "utf8_encode (log_text F (rs @ map saved_record as)) = Inr (contents fs' p)
         \<and> (rs @ map saved_record as \<noteq> [] \<longrightarrow> lookup fs' p = Some (File (contents fs' p)))"
  using assms
proof (induction as arbitrary: fs rs)
  case Nil
  then show ?case by simp
next
  case (Cons a as)
  obtain now user_id message_id file_id transcription file_type filename
    where a: "a = (now, user_id, message_id, file_id, transcription, file_type, filename)"
    by (cases a) auto
  obtain fs1 where
    s1: "save_transcription F now fs p user_id message_id file_id transcription file_type
           filename = (Inr True, fs1)"
    and rest: "save_all F fs1 p as = Some fs'"
    using Cons.prems(1) by (auto simp: a split: prod.splits sum.splits bool.splits)
  obtain bs where en: "utf8_encode (dumps F (saved_record a) @ [10]) = Inr bs"
    and l1: "lookup fs1 p = Some (File (contents fs p @ bs))"
    using save_transcription_success [OF s1] by (auto simp: a saved_record_def)
  have c1: "contents fs1 p = contents fs p @ bs"
    using l1 by (simp add: contents_def)
  have "utf8_encode (log_text F (rs @ [saved_record a])) = Inr (contents fs1 p)"
    using Cons.prems(2) en by (simp add: log_text_snoc utf8_encode_append c1)
  moreover have "lookup fs1 p = Some (File (contents fs1 p))"
    using l1 c1 by simp
  ultimately show ?case
    using Cons.IH [OF rest, of "rs @ [saved_record a]"] by simp
qed

lemma save_all_log:
  assumes "\<not> path_exists fs p" "save_all F fs p as = Some fs'"
  shows "utf8_encode (log_text F (map saved_record as)) = Inr (contents fs' p)"
    and "as \<noteq> [] \<Longrightarrow> lookup fs' p = Some (File (contents fs' p))"
proof -
  have "contents fs p = []"
    using assms(1) by (simp add: path_exists_def contents_def)
  then have *: "utf8_encode (log_text F ([] @ map saved_record as)) = Inr (contents fs' p)
         \<and> ([] @ map saved_record as \<noteq> [] \<longrightarrow> lookup fs' p = Some (File (contents fs' p)))"
    by (intro save_all_log_step [OF assms(2)]) simp_all
  then show "utf8_encode (log_text F (map saved_record as)) = Inr (contents fs' p)"
    by simp
  show "as \<noteq> [] \<Longrightarrow> lookup fs' p = Some (File (contents fs' p))"
    using * by simp
qed



subsection \<open>Reading with a filter and a limit\<close>

lemma get_transcriptions_read:
  assumes "path_exists fs p" "read_text fs p = Inr text"
  shows "get_transcriptions F fs p user_id limit
           = (case collect F user_id limit (file_lines text) [] of
                Inl e \<Rightarrow> Inl (StorageError e) | Inr ts \<Rightarrow> Inr ts)"
  using assms by (simp add: get_transcriptions_def)

lemma limited_None [simp]: "limited None rs = rs"
  by (simp add: limited_def)

lemma selected_None [simp]: "selected F None rs = rs"
  by (simp add: selected_def)


lemma loads_five: "loads [53] = Some (JInt 5)"
  by (simp add: loads_def starts_with_def skip_ws_def is_ws_def scan_once.simps [of "[53]"]
      match_number_def int_part_def frac_part_def exp_part_def dec_def)


lemma strip_five: "strip [53, 10] = [53]"
  by (simp add: strip_def is_space_def)


lemma read_text_single:
  "read_text [p \<mapsto> File bs] p = (if p = [] then Inl IsADirectoryError
     else case utf8_decode bs of Inl e \<Rightarrow> Inl e | Inr s \<Rightarrow> Inr (universal_newlines s))"
  by (simp add: read_text_def open_read_def lookup_def contents_def)



lemma mkdir_parents_root: "mkdir_parents fs [] = Inr fs"
  by (simp add: mkdir_parents.simps [of fs "[]"] os_mkdir_def lookup_def parent_def is_dir_def)



subsection \<open>Lines that do not decode as JSON\<close>

lemma utf8_decode_ascii: "\<forall>c \<in> set bs. c < 128 \<Longrightarrow> utf8_decode bs = Inr bs"
  by (induction bs) auto

lemma loads_user_42: "loads ([123, 34] @ lit ''user_id'' @ [34] @ lit '': 42}'')
    = Some (JObj [(lit ''user_id'', JInt 42)])"
  by (simp add: loads_def starts_with_def skip_ws_def is_ws_def scan_once.simps
      parse_members.simps unescape_def push_def match_number_def int_part_def frac_part_def
      exp_part_def dec_def is_digit_def)






subsection \<open>The loop of \<open>get_storage_stats\<close>\<close>

lemma get_storage_stats_read:
  assumes "path_exists fs p" "read_text fs p = Inr text"
  shows "get_storage_stats F fs p
           = (case tally F (file_lines text) (0, []) of
                Inl e \<Rightarrow> Inl (StorageError e)
              | Inr (n, seen) \<Rightarrow>
                  Inr \<lparr>total_transcriptions = n, unique_users = Users_count (length seen),
                       file_size_bytes = length (contents fs p), file_exists = True\<rparr>)"
  using assms by (simp add: get_storage_stats_def split: sum.splits)

lemma dict_get_error: "dict_get r k = Inl e \<Longrightarrow> e = AttributeError \<and> \<not> is_object r"
  by (cases r) (auto simp: dict_get_def is_object_def split: option.splits)

lemma dict_get_non_object: "\<not> is_object r \<Longrightarrow> dict_get r k = Inl AttributeError"
  by (cases r) (auto simp: dict_get_def is_object_def)

lemma set_add_error: "set_add F S v = Inl e \<Longrightarrow> e = TypeError"
  by (auto simp: set_add_def split: if_splits)

text \<open>The loop raises nothing but the two errors of a record that is not as expected.\<close>

lemma tally_errors: "tally F ls acc = Inl e \<Longrightarrow> e = AttributeError \<or> e = TypeError"
proof (induction ls arbitrary: acc)
  case Nil
  then show ?case by simp
next
  case (Cons l ls)
  obtain n seen where acc: "acc = (n, seen)" by (cases acc)
  show ?case
    using Cons.prems Cons.IH
    by (auto simp: acc Let_def split: if_splits option.splits sum.splits
        dest: dict_get_error set_add_error)
qed

text \<open>A line that holds a value that is not an object stops the loop, if nothing did before.\<close>

lemma tally_non_object:
  assumes "l \<in> set ls" "loads (strip l) = Some v" "\<not> is_object v"
  shows "\<exists>e. tally F ls acc = Inl e"
  using assms(1)
proof (induction ls arbitrary: acc)
  case Nil
  then show ?case by simp
next
  case (Cons k ls)
  obtain n seen where acc: "acc = (n, seen)" by (cases acc)
  show ?case
  proof (cases "k = l")
    case True
    have "strip l \<noteq> []" using assms(2) by auto
    then show ?thesis
      using True assms(2) dict_get_non_object [OF assms(3)] by (simp add: acc Let_def)
  next
    case False
    then have "l \<in> set ls" using Cons.prems by simp
    then show ?thesis
      using Cons.IH by (auto simp: acc Let_def split: option.splits sum.splits)
  qed
qed

lemma tally_first_non_object:
  assumes "loads (strip l) = Some v" "\<not> is_object v"
    and "\<forall>r \<in> set (records_of a). \<exists>u. dict_get r (lit ''user_id'') = Inr u \<and> hashable u"
  shows "tally F (a @ l # b) acc = Inl AttributeError"
  using assms(3)
proof (induction a arbitrary: acc)
  case Nil
  obtain n seen where acc: "acc = (n, seen)" by (cases acc)
  have "strip l \<noteq> []" using assms(1) by auto
  then show ?case
    using assms(1) dict_get_non_object [OF assms(2)] by (simp add: acc Let_def)
next
  case (Cons k a)
  obtain n seen where acc: "acc = (n, seen)" by (cases acc)
  show ?case
  proof (cases "loads (strip k)")
    case None
    then show ?thesis using Cons by (simp add: acc Let_def records_of_Cons)
  next
    case (Some r)
    then obtain u where u: "dict_get r (lit ''user_id'') = Inr u" "hashable u"
      using Cons.prems by (auto simp: records_of_Cons)
    have ne: "strip k \<noteq> []" using Some by auto
    have "\<forall>r \<in> set (records_of a). \<exists>u. dict_get r (lit ''user_id'') = Inr u \<and> hashable u"
      using Cons.prems Some by (simp add: records_of_Cons)
    then show ?thesis
      using Cons.IH Some u ne by (simp add: acc Let_def set_add_def)
  qed
qed

text \<open>
  C10. Only a line that fails to decode as JSON is passed over. For every file that
  holds a line whose text is valid JSON but not an object (a bare number, say),
  \<open>get_storage_stats\<close> raises \<open>StorageError\<close>; the cause is the \<open>AttributeError\<close> of
  \<open>record.get\<close> on that value, or the error an earlier line has raised in the same
  way (\<open>TypeError\<close> for a \<open>user_id\<close> that cannot be hashed). When every record before
  the line is an object with a hashable \<open>user_id\<close>, the cause is the \<open>AttributeError\<close>.
\<close>

theorem get_storage_stats_non_object_line:
  "(path_exists fs file_path \<and> read_text fs file_path = Inr text
      \<and> l \<in> set (file_lines text) \<and> loads (strip l) = Some v \<and> \<not> is_object v
    \<longrightarrow> (\<exists>e. get_storage_stats F fs file_path = Inl (StorageError e)
              \<and> (e = AttributeError \<or> e = TypeError)))
   \<and> (\<forall>a b.
         path_exists fs file_path \<and> read_text fs file_path = Inr text
         \<and> file_lines text = a @ l # b \<and> loads (strip l) = Some v \<and> \<not> is_object v
         \<and> (\<forall>r \<in> set (records_of a).
               \<exists>u. dict_get r (lit ''user_id'') = Inr u \<and> hashable u)
       \<longrightarrow> get_storage_stats F fs file_path = Inl (StorageError AttributeError))"
proof (intro conjI impI allI)
  assume a: "path_exists fs file_path \<and> read_text fs file_path = Inr text
      \<and> l \<in> set (file_lines text) \<and> loads (strip l) = Some v \<and> \<not> is_object v"
  then obtain e where e: "tally F (file_lines text) (0, []) = Inl e"
    using tally_non_object [of l "file_lines text" v F "(0, [])"] by blast
  then have "e = AttributeError \<or> e = TypeError"
    by (rule tally_errors)
  then show "\<exists>e. get_storage_stats F fs file_path = Inl (StorageError e)
              \<and> (e = AttributeError \<or> e = TypeError)"
    using a e by (simp add: get_storage_stats_read)
next
  fix a b
  assume a: "path_exists fs file_path \<and> read_text fs file_path = Inr text
         \<and> file_lines text = a @ l # b \<and> loads (strip l) = Some v \<and> \<not> is_object v
         \<and> (\<forall>r \<in> set (records_of a).
               \<exists>u. dict_get r (lit ''user_id'') = Inr u \<and> hashable u)"
  then have "tally F (file_lines text) (0, []) = Inl AttributeError"
    using tally_first_non_object [of l v a F b "(0, [])"] by simp
  then show "get_storage_stats F fs file_path = Inl (StorageError AttributeError)"
    using a by (simp add: get_storage_stats_read)
qed

theorem get_storage_stats_non_object_line_witness:
  "get_storage_stats
      \<lparr>float_eq_int = \<lambda>x n. False, float_eq = \<lambda>x y. False, float_repr = \<lambda>x. x\<rparr>
      [[''transcripts.jsonl''] \<mapsto>
         File (([123, 34] @ lit ''user_id'' @ [34] @ lit '': 42}'') @ [10] @ [53, 10])]
      [''transcripts.jsonl'']
     = Inl (StorageError AttributeError)
   \<and> get_transcriptions
      \<lparr>float_eq_int = \<lambda>x n. False, float_eq = \<lambda>x y. False, float_repr = \<lambda>x. x\<rparr>
      [[''transcripts.jsonl''] \<mapsto>
         File (([123, 34] @ lit ''user_id'' @ [34] @ lit '': 42}'') @ [10] @ [53, 10])]
      [''transcripts.jsonl''] None None
     = Inr [JObj [(lit ''user_id'', JInt 42)], JInt 5]"
proof -
  let ?F = "\<lparr>float_eq_int = \<lambda>x n. False, float_eq = \<lambda>x y. False, float_repr = \<lambda>x. x\<rparr>"
  let ?l1 = "[123, 34] @ lit ''user_id'' @ [34] @ lit '': 42}''"
  let ?text = "?l1 @ [10] @ [53, 10]"
  let ?fs = "[[''transcripts.jsonl''] \<mapsto> File ?text]"
  have ex: "path_exists ?fs [''transcripts.jsonl'']"
    by (simp add: path_exists_def lookup_def)
  have rd: "read_text ?fs [''transcripts.jsonl''] = Inr ?text"
    by (simp add: read_text_single)
  have ls: "file_lines ?text = [?l1 @ [10]] @ [53, 10] # []"
    by simp
  have five: "loads (strip [53, 10]) = Some (JInt 5)" "\<not> is_object (JInt 5)"
    by (simp_all add: strip_five loads_five is_object_def)
  have r1: "records_of [?l1 @ [10]] = [JObj [(lit ''user_id'', JInt 42)]]"
    using loads_user_42 by (simp add: records_of_Cons strip_def is_space_def)
  have ok: "\<forall>r \<in> set (records_of [?l1 @ [10]]).
              \<exists>u. dict_get r (lit ''user_id'') = Inr u \<and> hashable u"
    unfolding r1 by (simp add: dict_get_def hashable_def)
  have stats: "get_storage_stats ?F ?fs [''transcripts.jsonl''] = Inl (StorageError AttributeError)"
    using get_storage_stats_non_object_line [of ?fs "[''transcripts.jsonl'']" ?text "[53, 10]"
        "JInt 5" ?F] ex rd ls five ok
    by blast
  have r2: "records_of [[53, 10]] = [JInt 5]"
    using five(1) by (simp add: records_of_Cons)
  have "records_of (file_lines ?text) = [JObj [(lit ''user_id'', JInt 42)], JInt 5]"
    by (subst ls, subst records_of_append, subst r1, subst r2) simp
  then have "get_transcriptions ?F ?fs [''transcripts.jsonl''] None None
      = Inr [JObj [(lit ''user_id'', JInt 42)], JInt 5]"
    using collect_unfiltered [of None ?F "file_lines ?text" "[]"] ex rd
    by (simp add: get_transcriptions_read del: file_lines.simps)
  then show ?thesis using stats by simp
qed

subsection \<open>Statistics of a log written by saves\<close>

lemma dict_get_saved_user: "dict_get (saved_record a) (lit ''user_id'') = Inr (JInt (saved_user a))"
  by (cases a) (simp add: saved_record_def saved_user_def transcript_record_def dict_get_def)

lemma set_add_int:
  "set_add F (map JInt us) (JInt u)
     = Inr (map JInt (if u \<in> set us then us else us @ [u]))"
proof -
  have "list_ex (\<lambda>e. py_eq F e (JInt u)) (map JInt us) \<longleftrightarrow> u \<in> set us"
    by (induction us) (auto simp: py_eq_def py_eq_int_def as_int_def)
  then show ?thesis
    by (simp add: set_add_def hashable_def)
qed

lemma tally_saved:
  assumes "distinct us"
  shows "\<exists>us'. tally F (file_lines (log_text F (map saved_record as))) (n, map JInt us)
                  = Inr (n + length as, map JInt us')
               \<and> distinct us' \<and> set us' = set us \<union> saved_user ` set as"
  using assms
proof (induction as arbitrary: n us)
  case Nil
  then show ?case by (intro exI [of _ us]) simp
next
  case (Cons a as)
  let ?r = "saved_record a"
  obtain kvs where r: "?r = JObj kvs" and sc: "\<forall>kv \<in> set kvs. scalar (snd kv)"
    and di: "distinct (map fst kvs)"
    using flat_saved_record [of a] by (auto elim: flat_objectE)
  have nl: "10 \<notin> set (dumps F ?r)"
    using dumps_flat_no_newline [OF sc, of F] r by simp
  have ls: "file_lines (log_text F (saved_record a # map saved_record as))
              = (dumps F ?r @ [10]) # file_lines (log_text F (map saved_record as))"
    using file_lines_line [OF nl] by (simp add: log_text_Cons)
  have st: "strip (dumps F ?r @ [10]) = dumps F ?r"
    using strip_dumps_object [of F kvs] r by simp
  have ld: "loads (dumps F ?r) = Some ?r"
    using loads_dumps_flat [OF sc di, of F] r by simp
  have ne: "dumps F ?r \<noteq> []"
    using r by simp
  let ?us1 = "if saved_user a \<in> set us then us else us @ [saved_user a]"
  have d1: "distinct ?us1" using Cons.prems by simp
  obtain us' where
    t: "tally F (file_lines (log_text F (map saved_record as))) (n + 1, map JInt ?us1)
          = Inr (n + 1 + length as, map JInt us')"
    and d: "distinct us'" and s: "set us' = set ?us1 \<union> saved_user ` set as"
    using Cons.IH [OF d1, of "n + 1"] by blast
  have "tally F (file_lines (log_text F (map saved_record (a # as)))) (n, map JInt us)
          = Inr (n + length (a # as), map JInt us')"
    using t st ld ne dict_get_saved_user [of a]
    by (simp add: ls Let_def set_add_int)
  moreover have "set us' = set us \<union> saved_user ` set (a # as)"
    using s by auto
  ultimately show ?case using d by blast
qed

text \<open>
  After \<open>N\<close> saves on a path where nothing was, made for \<open>U\<close> distinct users, the
  statistics count \<open>N\<close> records and \<open>U\<close> users, and the file exists.
\<close>

lemma get_storage_stats_after_saves:
  assumes "\<not> path_exists fs p" "save_all F fs p as = Some fs'" "as \<noteq> []"
  shows "get_storage_stats F fs' p
           = Inr \<lparr>total_transcriptions = length as,
                  unique_users = Users_count (card (saved_user ` set as)),
                  file_size_bytes = length (contents fs' p), file_exists = True\<rparr>"
proof -
  let ?rs = "map saved_record as"
  have flat: "\<forall>r \<in> set ?rs. flat_object r"
    using flat_saved_record by simp
  have node: "lookup fs' p = Some (File (contents fs' p))"
    using save_all_log(2) [OF assms(1,2)] assms(3) by simp
  have rd: "read_text fs' p = Inr (log_text F ?rs)"
    using read_text_log [OF node save_all_log(1) [OF assms(1,2)] flat] .
  have ex: "path_exists fs' p"
    using node by (simp add: path_exists_def)
  obtain us' where
    t: "tally F (file_lines (log_text F ?rs)) (0, map JInt []) = Inr (0 + length as, map JInt us')"
    and d: "distinct us'" and s: "set us' = set [] \<union> saved_user ` set as"
    using tally_saved [of "[]" F as 0] by auto
  have "length us' = card (saved_user ` set as)"
    using d s distinct_card [of us'] by simp
  then show ?thesis
    using t ex rd by (simp add: get_storage_stats_read)
qed

lemma get_storage_stats_absent:
  "\<not> path_exists fs p \<Longrightarrow>
     get_storage_stats F fs p
       = Inr \<lparr>total_transcriptions = 0, unique_users = Users_set [], file_size_bytes = 0,
              file_exists = False\<rparr>"
  by (simp add: get_storage_stats_def)

text \<open>
  C5: the code departs from the claim on a path where no file is. The early return
  hands back the dictionary as it was first built, in which \<open>unique_users\<close> is still
  the empty set; the line that replaces the set by its size is never reached. The
  other three fields are 0, 0 and false, as the claim says.
\<close>

theorem get_storage_stats_absent_file:
  "get_storage_stats F Map.empty [''transcripts.jsonl'']
     = Inr \<lparr>total_transcriptions = 0, unique_users = Users_set [], file_size_bytes = 0,
            file_exists = False\<rparr>"
  by (simp add: get_storage_stats_def path_exists_def lookup_def)

subsection \<open>\<open>backup_transcriptions\<close>\<close>

lemma backup_transcriptions_absent:
  "\<not> path_exists fs p \<Longrightarrow> backup_transcriptions fs p b = (Inr False, fs)"
  by (simp add: backup_transcriptions_def)

lemma contents_write_bytes:
  "b \<noteq> [] \<Longrightarrow> contents (write_bytes fs b chunk) q
     = (if q = b then contents fs b @ chunk else contents fs q)"
  by (simp add: write_bytes_def contents_def lookup_update)




text \<open>
  C7: the code departs from the claim when the destination is the log's own path.
  Opening the destination for writing empties the log before the first block of it is
  read; the loop then copies nothing, and the call returns true with the log empty.
  With no log at the path it returns false and changes nothing, and to any other
  destination it copies the bytes (\<open>backup_transcriptions_absent\<close>,
  \<open>backup_transcriptions_copy\<close>).
\<close>

theorem backup_transcriptions_onto_itself:
  "fst (backup_transcriptions
          [[''transcripts.jsonl''] \<mapsto>
             File (([123, 34] @ lit ''user_id'' @ [34] @ lit '': 42}'') @ [10])]
          [''transcripts.jsonl''] [''transcripts.jsonl'']) = Inr True
   \<and> lookup (snd (backup_transcriptions
          [[''transcripts.jsonl''] \<mapsto>
             File (([123, 34] @ lit ''user_id'' @ [34] @ lit '': 42}'') @ [10])]
          [''transcripts.jsonl''] [''transcripts.jsonl''])) [''transcripts.jsonl'']
       = Some (File [])"
  by (simp add: backup_transcriptions_def path_exists_def lookup_def parent_def
      mkdir_parents_root open_read_def open_write_def open_check_def contents_def)

subsection \<open>What the operations leave of the log\<close>












end
